theory Spec2Isabelle
  imports Main "HOL-Library.AList"
begin

text \<open>
  A model of the browser worker of \<open>src/index.js\<close>: the session registry, the auth
  gate, the step loop of \<open>POST /run\<close> with its two delivery modes, and the session
  endpoints. Each handler is a function from the server state before the request
  to the response and the server state after it; a handler runs to completion
  before the next one starts. The browser engine is a parameter. The log buffer,
  the two HTML pages and the timer that evicts idle sessions are left out.
\<close>

section \<open>Values of the request body and thrown errors\<close>

text \<open>
  The request body is parsed JSON. A field that is absent reads as \<open>JUndefined\<close>.
  A number that is a safe integer (at most \<open>2^53 - 1\<close> in magnitude) is \<open>JNum\<close> of its
  value. Every other number (a fraction, a larger magnitude, an infinity from an
  overflowing literal) is \<open>JFloat\<close> of the text \<open>String\<close> gives for it, such as
  \<open>1.5\<close>, \<open>1e+21\<close> or \<open>-Infinity\<close>: that text identifies the number, and the
  handlers only test numbers for their type, compare them as keys, print them and
  pass them on to the engine. Parsed JSON holds no \<open>NaN\<close>, and \<open>-0\<close> is \<open>JNum 0\<close>.
\<close>

datatype jsval =
    JUndefined
  | JNull
  | JBool bool
  | JNum int
  | JFloat string
  | JStr string
  | JArr "jsval list"
  | JObj "(string \<times> jsval) list"

text \<open>JavaScript truthiness, as used by \<open>||\<close>, \<open>!\<close> and \<open>if\<close>.\<close>

fun truthy :: "jsval \<Rightarrow> bool" where
  "truthy JUndefined = False"
| "truthy JNull = False"
| "truthy (JBool b) = b"
| "truthy (JNum n) = (n \<noteq> 0)"
| "truthy (JFloat t) = True"
| "truthy (JStr s) = (s \<noteq> [])"
| "truthy (JArr xs) = True"
| "truthy (JObj kvs) = True"

text \<open>\<open>a || b\<close> and \<open>a ?? b\<close>.\<close>

definition js_or :: "jsval \<Rightarrow> jsval \<Rightarrow> jsval" where
  "js_or a b = (if truthy a then a else b)"

definition js_nullish :: "jsval \<Rightarrow> jsval \<Rightarrow> jsval" where
  "js_nullish a b = (if a = JUndefined \<or> a = JNull then b else a)"

text \<open>
  Thrown values are \<open>Error\<close> objects: a class name and a message. The engine rejects
  with \<open>Error\<close> or \<open>TimeoutError\<close>; reading a property of \<open>null\<close> raises a
  \<open>TypeError\<close>.
\<close>

datatype errname = ErrorN | TypeErrorN | TimeoutErrorN

datatype exn = Exn errname string

fun name_text :: "errname \<Rightarrow> string" where
  "name_text ErrorN = ''Error''"
| "name_text TypeErrorN = ''TypeError''"
| "name_text TimeoutErrorN = ''TimeoutError''"

text \<open>\<open>String(e)\<close> for an \<open>Error\<close> object (\<open>Error.prototype.toString\<close>).\<close>

fun exn_to_string :: "exn \<Rightarrow> string" where
  "exn_to_string (Exn n m) = (if m = [] then name_text n else name_text n @ '': '' @ m)"

text \<open>\<open>e?.message || String(e)\<close>.\<close>

fun err_text :: "exn \<Rightarrow> string" where
  "err_text (Exn n m) = (if m \<noteq> [] then m else exn_to_string (Exn n m))"

text \<open>
  Property access \<open>v.k\<close>. On \<open>null\<close> and \<open>undefined\<close> it throws; on every other
  value it yields the own property of an object and \<open>undefined\<close> otherwise (none of
  the names the handlers read is an inherited property of an object, string,
  number, boolean or array).
\<close>

definition js_prop :: "jsval \<Rightarrow> string \<Rightarrow> jsval" where
  "js_prop v k = (case v of
       JObj kvs \<Rightarrow> (case map_of kvs k of Some x \<Rightarrow> x | None \<Rightarrow> JUndefined)
     | _ \<Rightarrow> JUndefined)"

definition get_field :: "jsval \<Rightarrow> string \<Rightarrow> exn + jsval" where
  "get_field v k =
     (if v = JNull then
        Inl (Exn TypeErrorN (''Cannot read properties of null (reading '' @ [CHR 0x27] @ k @ [CHR 0x27] @ '')''))
      else if v = JUndefined then
        Inl (Exn TypeErrorN (''Cannot read properties of undefined (reading '' @ [CHR 0x27] @ k @ [CHR 0x27] @ '')''))
      else Inr (js_prop v k))"

text \<open>
  String conversion of a value inside a template literal. A safe integer prints as
  its decimal digits. An array prints its items joined by commas, \<open>null\<close> and
  \<open>undefined\<close> items as nothing. An object prints through
  \<open>Object.prototype.toString\<close>, unless it has an own \<open>toString\<close> key: a parsed value
  is not callable, \<open>valueOf\<close> (own or inherited) yields no primitive either, and the
  conversion throws a \<open>TypeError\<close>.
\<close>

fun digit_char :: "nat \<Rightarrow> char" where
  "digit_char n = char_of (48 + n)"

fun nat_string :: "nat \<Rightarrow> string" where
  "nat_string n = (if n < 10 then [digit_char n] else nat_string (n div 10) @ [digit_char (n mod 10)])"

definition int_string :: "int \<Rightarrow> string" where
  "int_string i = (if i < 0 then CHR ''-'' # nat_string (nat (- i)) else nat_string (nat i))"

fun join_comma :: "string list \<Rightarrow> string" where
  "join_comma [] = []"
| "join_comma [s] = s"
| "join_comma (s # t # rest) = s @ '','' @ join_comma (t # rest)"

text \<open>The conversions of the items of an array, in order: the first that throws ends it.\<close>

fun collect :: "(exn + string) list \<Rightarrow> exn + string list" where
  "collect [] = Inr []"
| "collect (r # rs) =
     (case r of
        Inl e \<Rightarrow> Inl e
      | Inr t \<Rightarrow> (case collect rs of Inl e \<Rightarrow> Inl e | Inr ts \<Rightarrow> Inr (t # ts)))"

fun js_string :: "jsval \<Rightarrow> exn + string" where
  "js_string JUndefined = Inr ''undefined''"
| "js_string JNull = Inr ''null''"
| "js_string (JBool b) = Inr (if b then ''true'' else ''false'')"
| "js_string (JNum n) = Inr (int_string n)"
| "js_string (JFloat t) = Inr t"
| "js_string (JStr s) = Inr s"
| "js_string (JArr xs) =
     (case collect (map (\<lambda>x. if x = JNull \<or> x = JUndefined then Inr [] else js_string x) xs) of
        Inl e \<Rightarrow> Inl e
      | Inr ts \<Rightarrow> Inr (join_comma ts))"
| "js_string (JObj kvs) =
     (case map_of kvs ''toString'' of
        Some v \<Rightarrow> Inl (Exn TypeErrorN ''Cannot convert object to primitive value'')
      | None \<Rightarrow> Inr ''[object Object]'')"

section \<open>The automation engine\<close>

text \<open>
  The browser engine is an external collaborator. It is a parameter of the model:
  a world \<open>'w\<close> (everything the engine knows), handles \<open>'h\<close> for browsers, contexts
  and pages, and one function per call the handlers make. A call that rejects
  returns the thrown error.
\<close>

datatype cmd =
    Goto jsval jsval jsval
  | WaitForSelector jsval jsval
  | Click jsval
  | Fill jsval jsval
  | MouseClick jsval jsval
  | KeyboardType jsval
  | KeyboardPress jsval
  | MouseWheel jsval jsval

text \<open>
  What \<open>page.screenshot\<close> resolves to: a string, a buffer (kept as its base64
  rendering), or nothing.
\<close>

datatype shot = ShotString string | ShotBuffer string | ShotNull

record ('w, 'h) engine =
  launch :: "'w \<Rightarrow> 'w \<times> (exn + 'h)"
  newContext :: "'w \<Rightarrow> 'h \<Rightarrow> 'w \<times> (exn + 'h)"
  newPage :: "'w \<Rightarrow> 'h \<Rightarrow> 'w \<times> (exn + 'h)"
  page_do :: "'w \<Rightarrow> 'h \<Rightarrow> cmd \<Rightarrow> 'w \<times> exn option"
  page_screenshot :: "'w \<Rightarrow> 'h \<Rightarrow> 'w \<times> (exn + shot)"
  page_url :: "'w \<Rightarrow> 'h \<Rightarrow> 'w \<times> (exn + string)"
  page_title :: "'w \<Rightarrow> 'h \<Rightarrow> 'w \<times> (exn + string)"
  browser_close :: "'w \<Rightarrow> 'h \<Rightarrow> 'w"

text \<open>Every call into the engine is recorded, so that "the engine was not touched" is a
  statement about the state.\<close>

datatype 'h ecall =
    ELaunch
  | ENewContext 'h
  | ENewPage 'h
  | EDo 'h cmd
  | EScreenshot 'h
  | EUrl 'h
  | ETitle 'h
  | EClose 'h

section \<open>The session registry\<close>

record 'h entry =
  browser :: 'h
  bcontext :: 'h
  page :: 'h
  lastUsedAt :: int

text \<open>
  \<open>sessions\<close> is a JavaScript \<open>Map\<close>: insertion ordered, keys compared by value for
  primitives and by identity for arrays and objects. An array or object that comes
  out of a freshly parsed body is identical to no key already in the map.
\<close>

record ('w, 'h) server =
  sessions :: "(jsval \<times> 'h entry) list"
  world :: "'w"
  calls :: "'h ecall list"

fun is_ref :: "jsval \<Rightarrow> bool" where
  "is_ref (JArr xs) = True"
| "is_ref (JObj kvs) = True"
| "is_ref v = False"

definition sessions_get :: "(jsval \<times> 'h entry) list \<Rightarrow> jsval \<Rightarrow> 'h entry option" where
  "sessions_get m k = (if is_ref k then None else map_of m k)"

definition sessions_set :: "(jsval \<times> 'h entry) list \<Rightarrow> jsval \<Rightarrow> 'h entry \<Rightarrow> (jsval \<times> 'h entry) list" where
  "sessions_set m k e = (if is_ref k then m @ [(k, e)] else AList.update k e m)"

definition sessions_delete :: "(jsval \<times> 'h entry) list \<Rightarrow> jsval \<Rightarrow> (jsval \<times> 'h entry) list" where
  "sessions_delete m k = AList.delete k m"

text \<open>The clock reading and the identifier \<open>randomId()\<close> would return, per request.\<close>

record env =
  now :: int
  randomId :: string

definition createNewSession ::
  "('w, 'h) engine \<Rightarrow> env \<Rightarrow> ('w, 'h) server \<Rightarrow> jsval \<Rightarrow> ('w, 'h) server \<times> (exn + 'h entry)" where
  "createNewSession eng ev srv sessionId =
     (let (w1, r1) = launch eng (world srv);
          s1 = srv\<lparr>world := w1, calls := calls srv @ [ELaunch]\<rparr>
      in case r1 of
           Inl e \<Rightarrow> (s1, Inl e)
         | Inr b \<Rightarrow>
            (let (w2, r2) = newContext eng (world s1) b;
                 s2 = s1\<lparr>world := w2, calls := calls s1 @ [ENewContext b]\<rparr>
             in case r2 of
                  Inl e \<Rightarrow> (s2, Inl e)
                | Inr c \<Rightarrow>
                   (let (w3, r3) = newPage eng (world s2) c;
                        s3 = s2\<lparr>world := w3, calls := calls s2 @ [ENewPage c]\<rparr>
                    in case r3 of
                         Inl e \<Rightarrow> (s3, Inl e)
                       | Inr p \<Rightarrow>
                          (let ent = \<lparr>browser = b, bcontext = c, page = p, lastUsedAt = now ev\<rparr>
                           in (s3\<lparr>sessions := sessions_set (sessions s3) sessionId ent\<rparr>, Inr ent)))))"

definition getOrCreateSession ::
  "('w, 'h) engine \<Rightarrow> env \<Rightarrow> ('w, 'h) server \<Rightarrow> jsval \<Rightarrow>
     ('w, 'h) server \<times> (exn + jsval \<times> 'h entry)" where
  "getOrCreateSession eng ev srv requestedId =
     (case (if truthy requestedId then sessions_get (sessions srv) requestedId else None) of
        Some existing \<Rightarrow>
          (let ent = existing\<lparr>lastUsedAt := now ev\<rparr>
           in (srv\<lparr>sessions := sessions_set (sessions srv) requestedId ent\<rparr>, Inr (requestedId, ent)))
      | None \<Rightarrow>
          (let sid = js_or requestedId (JStr (randomId ev));
               (srv', r) = createNewSession eng ev srv sid
           in case r of Inl e \<Rightarrow> (srv', Inl e) | Inr ent \<Rightarrow> (srv', Inr (sid, ent))))"

definition closeSession :: "('w, 'h) engine \<Rightarrow> ('w, 'h) server \<Rightarrow> jsval \<Rightarrow> ('w, 'h) server" where
  "closeSession eng srv sessionId =
     (case sessions_get (sessions srv) sessionId of
        None \<Rightarrow> srv
      | Some ent \<Rightarrow>
          srv\<lparr>sessions := sessions_delete (sessions srv) sessionId,
              world := browser_close eng (world srv) (browser ent),
              calls := calls srv @ [EClose (browser ent)]\<rparr>)"

section \<open>Responses\<close>

record step_result =
  stepIndex :: nat
  action :: jsval
  screenshotBase64 :: "string option"
  success :: bool
  error :: "string option"

text \<open>
  Messages of the event stream: \<open>{type:'step', ...}\<close> and
  \<open>{type:'done', success, error, steps, sessionId}\<close>. The session id of a done
  message is the variable \<open>resolvedSessionId\<close>, \<open>JUndefined\<close> until a session has
  been resolved.
\<close>

datatype sse =
    StepEvent step_result
  | DoneEvent bool "string option" "step_result list" jsval

datatype body =
    ErrorBody string
  | RunBody bool "string option" "step_result list" jsval
  | ClosedBody
  | ScreenshotBody "string option" string string string
  | InfoBody string string string
  | HealthBody nat
  | ErrorPage

text \<open>
  The response object \<open>res\<close>. \<open>res.write\<close> is taken not to throw, and
  \<open>res.flushHeaders\<close> to exist, as on Node's \<open>http.ServerResponse\<close>.
\<close>

record response =
  headersSent :: bool
  statusCode :: nat
  written :: "sse list"
  ended :: bool
  body :: "body option"

definition new_response :: response where
  "new_response = \<lparr>headersSent = False, statusCode = 200, written = [], ended = False, body = None\<rparr>"

definition res_json :: "nat \<Rightarrow> body \<Rightarrow> response \<Rightarrow> response" where
  "res_json code b r = r\<lparr>headersSent := True, statusCode := code, ended := True, body := Some b\<rparr>"

definition res_write :: "sse \<Rightarrow> response \<Rightarrow> response" where
  "res_write m r = r\<lparr>headersSent := True, written := written r @ [m]\<rparr>"

definition res_end :: "response \<Rightarrow> response" where
  "res_end r = r\<lparr>headersSent := True, ended := True\<rparr>"

definition flushHeaders :: "response \<Rightarrow> response" where
  "flushHeaders r = r\<lparr>headersSent := True\<rparr>"

section \<open>The auth gate\<close>

text \<open>\<open>SECRET\<close> is \<open>None\<close> (null) or the trimmed environment variable.\<close>

definition bearer_token :: "string option \<Rightarrow> string option" where
  "bearer_token auth =
     (case auth of
        None \<Rightarrow> None
      | Some a \<Rightarrow> (if take 7 a = ''Bearer '' then Some (drop 7 a) else None))"

definition checkAuth :: "string option \<Rightarrow> string option \<Rightarrow> response \<Rightarrow> bool \<times> response" where
  "checkAuth SECRET auth res =
     (if SECRET = None \<or> SECRET = Some [] then (True, res)
      else if bearer_token auth \<noteq> SECRET then (False, res_json 401 (ErrorBody ''Unauthorized'') res)
      else (True, res))"

section \<open>Executing one step\<close>

definition shot_base64 :: "shot \<Rightarrow> string option" where
  "shot_base64 buf = (case buf of ShotString s \<Rightarrow> Some s | ShotBuffer b \<Rightarrow> Some b | ShotNull \<Rightarrow> None)"

definition do_cmd ::
  "('w, 'h) engine \<Rightarrow> ('w, 'h) server \<Rightarrow> 'h \<Rightarrow> cmd \<Rightarrow> ('w, 'h) server \<times> exn option" where
  "do_cmd eng srv pg c =
     (let (w', r) = page_do eng (world srv) pg c
      in (srv\<lparr>world := w', calls := calls srv @ [EDo pg c]\<rparr>, r))"

definition take_screenshot ::
  "('w, 'h) engine \<Rightarrow> ('w, 'h) server \<Rightarrow> 'h \<Rightarrow> ('w, 'h) server \<times> (exn + shot)" where
  "take_screenshot eng srv pg =
     (let (w', r) = page_screenshot eng (world srv) pg
      in (srv\<lparr>world := w', calls := calls srv @ [EScreenshot pg]\<rparr>, r))"

definition is_number :: "jsval \<Rightarrow> bool" where
  "is_number v = (case v of JNum n \<Rightarrow> True | JFloat t \<Rightarrow> True | _ \<Rightarrow> False)"

definition is_string :: "jsval \<Rightarrow> bool" where
  "is_string v = (case v of JStr s \<Rightarrow> True | _ \<Rightarrow> False)"

text \<open>
  The dispatch on the action inside the inner \<open>try\<close>, up to the screenshot.
  The \<open>setTimeout\<close> of a wait step only lets time pass.
\<close>

definition step_action ::
  "('w, 'h) engine \<Rightarrow> ('w, 'h) server \<Rightarrow> 'h \<Rightarrow> jsval \<Rightarrow> jsval \<Rightarrow> ('w, 'h) server \<times> exn option" where
  "step_action eng srv pg step act =
     (if act = JStr ''navigate'' then
        (let url = js_or (js_prop step ''url'') (JStr ''about:blank'');
             waitUntil = js_or (js_prop step ''waitUntil'') (JStr ''load'');
             timeout = js_nullish (js_prop step ''timeout'') (JNum 60000)
         in if waitUntil \<notin> set [JStr ''domcontentloaded'', JStr ''load'', JStr ''networkidle''] then
              (case js_string waitUntil of
                 Inl e \<Rightarrow> (srv, Some e)
               | Inr t \<Rightarrow>
                   (srv, Some (Exn ErrorN
                      (''waitUntil must be domcontentloaded, load, or networkidle, got: '' @ t))))
            else do_cmd eng srv pg (Goto url waitUntil timeout))
      else if act = JStr ''wait'' then
        (let delay = js_prop step ''delay'';
             selector = js_prop step ''selector'';
             selectorTimeout = js_nullish (js_prop step ''selectorTimeout'') (JNum 15000);
             (srv1, r1) = (if truthy selector then do_cmd eng srv pg (WaitForSelector selector selectorTimeout)
                           else (srv, None))
         in case r1 of
              Some e \<Rightarrow> (srv1, Some e)
            | None \<Rightarrow>
                (if \<not> is_number delay \<and> \<not> truthy selector then
                   (srv1, Some (Exn ErrorN ''wait action requires delay (ms) and/or selector''))
                 else (srv1, None)))
      else if act = JStr ''click'' then
        (let selector = js_prop step ''selector''
         in if \<not> truthy selector then (srv, Some (Exn ErrorN ''selector required for click''))
            else do_cmd eng srv pg (Click selector))
      else if act = JStr ''fill'' then
        (let selector = js_prop step ''selector'';
             v = js_nullish (js_prop step ''value'') (JStr [])
         in if \<not> truthy selector then (srv, Some (Exn ErrorN ''selector required for fill''))
            else do_cmd eng srv pg (Fill selector v))
      else (srv, None))"

text \<open>The body of the inner \<open>try\<close>: the action, then the screenshot.\<close>

definition try_body ::
  "('w, 'h) engine \<Rightarrow> ('w, 'h) server \<Rightarrow> 'h \<Rightarrow> jsval \<Rightarrow> jsval \<Rightarrow>
     ('w, 'h) server \<times> (exn + string option)" where
  "try_body eng srv pg step act =
     (let (s1, r) = step_action eng srv pg step act
      in case r of
           Some e \<Rightarrow> (s1, Inl e)
         | None \<Rightarrow>
             (let (s2, sh) = take_screenshot eng s1 pg
              in case sh of Inl e \<Rightarrow> (s2, Inl e) | Inr buf \<Rightarrow> (s2, Inr (shot_base64 buf))))"

text \<open>\<open>!error\<close> for \<open>error\<close> being \<open>null\<close> or a string.\<close>

definition no_error :: "string option \<Rightarrow> bool" where
  "no_error err = (case err of None \<Rightarrow> True | Some m \<Rightarrow> m = [])"

text \<open>The inner \<open>try\<close>/\<open>catch\<close> and the payload built from it.\<close>

definition exec_step ::
  "('w, 'h) engine \<Rightarrow> ('w, 'h) server \<Rightarrow> 'h \<Rightarrow> nat \<Rightarrow> jsval \<Rightarrow> jsval \<Rightarrow>
     ('w, 'h) server \<times> step_result" where
  "exec_step eng srv pg i step act =
     (let (s1, r) = try_body eng srv pg step act;
          (s2, err, shot) =
            (case r of
               Inr sb \<Rightarrow> (s1, None, sb)
             | Inl e \<Rightarrow>
                 (let (s', sh) = take_screenshot eng s1 pg
                  in (s', Some (err_text e),
                      (case sh of Inl e2 \<Rightarrow> None | Inr buf \<Rightarrow> shot_base64 buf))))
      in (s2, \<lparr>stepIndex = i, action = act, screenshotBase64 = shot,
               success = no_error err, error = (if no_error err then None else err)\<rparr>))"

section \<open>POST /run\<close>

record run_req =
  authorization :: "string option"
  query_stream :: "string option"
  accept :: "string option"
  body_steps :: jsval
  body_sessionId :: jsval

record ('w, 'h) run_state =
  st_srv :: "('w, 'h) server"
  st_res :: response
  results :: "step_result list"

definition emitStep :: "bool \<Rightarrow> step_result \<Rightarrow> ('w, 'h) run_state \<Rightarrow> ('w, 'h) run_state" where
  "emitStep stream payload st =
     st\<lparr>results := results st @ [payload],
        st_res := (if stream \<and> headersSent (st_res st) then res_write (StepEvent payload) (st_res st)
                   else st_res st)\<rparr>"

text \<open>
  The \<open>for\<close> loop over the steps, from index \<open>i\<close> on. Reading \<open>step.action\<close> is outside
  the inner \<open>try\<close>: an error there leaves the loop.
\<close>

fun step_loop ::
  "('w, 'h) engine \<Rightarrow> bool \<Rightarrow> 'h \<Rightarrow> nat \<Rightarrow> jsval list \<Rightarrow> ('w, 'h) run_state \<Rightarrow>
     ('w, 'h) run_state \<times> exn option" where
  "step_loop eng stream pg i [] st = (st, None)"
| "step_loop eng stream pg i (step # rest) st =
     (case get_field step ''action'' of
        Inl e \<Rightarrow> (st, Some e)
      | Inr a \<Rightarrow>
          (let act = js_or a (JStr ''snapshot'');
               (srv', payload) = exec_step eng (st_srv st) pg i step act
           in step_loop eng stream pg (Suc i) rest (emitStep stream payload (st\<lparr>st_srv := srv'\<rparr>))))"

definition is_stream :: "run_req \<Rightarrow> bool" where
  "is_stream req = (query_stream req = Some ''1'' \<or> accept req = Some ''text/event-stream'')"

text \<open>The outer \<open>try\<close> block: open the stream, resolve the session, run the loop.
  The result is the state reached, the error that escaped (if any) and \<open>resolvedSessionId\<close>.\<close>

text \<open>The state in which the loop starts: the stream is open in streaming mode, and no
  result has been collected.\<close>

definition loop_start :: "bool \<Rightarrow> ('w, 'h) server \<Rightarrow> ('w, 'h) run_state" where
  "loop_start stream srv1 =
     \<lparr>st_srv = srv1, st_res = (if stream then flushHeaders new_response else new_response), results = []\<rparr>"

definition run_try ::
  "('w, 'h) engine \<Rightarrow> env \<Rightarrow> ('w, 'h) server \<Rightarrow> bool \<Rightarrow> jsval list \<Rightarrow> jsval \<Rightarrow>
     ('w, 'h) run_state \<times> exn option \<times> jsval" where
  "run_try eng ev srv stream ss requestedSessionId =
     (let (srv1, r) = getOrCreateSession eng ev srv (js_or requestedSessionId JNull)
      in case r of
           Inl e \<Rightarrow> (loop_start stream srv1, Some e, JUndefined)
         | Inr (sid, ent) \<Rightarrow>
             (let (st, esc) = step_loop eng stream (page ent) 0 ss (loop_start stream srv1)
              in (st, esc, sid)))"

text \<open>The two ways the handler answers: after the loop, and in the outer \<open>catch\<close>.\<close>

definition run_respond :: "bool \<Rightarrow> ('w, 'h) run_state \<times> exn option \<times> jsval \<Rightarrow> response" where
  "run_respond stream out =
     (case out of (st, esc, sid) \<Rightarrow>
        (case esc of
           None \<Rightarrow>
             (if stream then res_end (res_write (DoneEvent True None (results st) sid) (st_res st))
              else res_json 200 (RunBody True None (results st) sid) (st_res st))
         | Some err \<Rightarrow>
             (let msg = err_text err
              in if stream \<and> headersSent (st_res st) then
                   res_end (res_write (DoneEvent False (Some msg) (results st) sid) (st_res st))
                 else res_json 500 (RunBody False (Some msg) (results st) sid) (st_res st))))"

definition run ::
  "('w, 'h) engine \<Rightarrow> string option \<Rightarrow> env \<Rightarrow> ('w, 'h) server \<Rightarrow> run_req \<Rightarrow>
     response \<times> ('w, 'h) server" where
  "run eng SECRET ev srv req =
     (let (ok, res) = checkAuth SECRET (authorization req) new_response
      in if \<not> ok then (res, srv)
         else
           (let stream = is_stream req
            in case body_steps req of
                 JArr ss \<Rightarrow>
                   (if length ss = 0 then
                      (res_json 400 (ErrorBody ''steps array required (1-15 items)'') res, srv)
                    else if length ss > 15 then (res_json 400 (ErrorBody ''max 15 steps'') res, srv)
                    else
                      (let out = run_try eng ev srv stream ss (body_sessionId req)
                       in (run_respond stream out, st_srv (fst out))))
               | _ \<Rightarrow> (res_json 400 (ErrorBody ''steps array required (1-15 items)'') res, srv)))"

section \<open>The other endpoints\<close>

text \<open>\<open>DELETE /session/:sessionId\<close>.\<close>

definition delete_session ::
  "('w, 'h) engine \<Rightarrow> string option \<Rightarrow> ('w, 'h) server \<Rightarrow> string option \<Rightarrow> string \<Rightarrow>
     response \<times> ('w, 'h) server" where
  "delete_session eng SECRET srv auth sessionId =
     (let (ok, res) = checkAuth SECRET auth new_response
      in if \<not> ok then (res, srv)
         else if sessionId = [] then (res_json 400 (ErrorBody ''sessionId required'') res, srv)
         else (res_json 200 ClosedBody res, closeSession eng srv (JStr sessionId)))"

definition get_url ::
  "('w, 'h) engine \<Rightarrow> ('w, 'h) server \<Rightarrow> 'h \<Rightarrow> ('w, 'h) server \<times> (exn + string)" where
  "get_url eng srv pg =
     (let (w', r) = page_url eng (world srv) pg
      in (srv\<lparr>world := w', calls := calls srv @ [EUrl pg]\<rparr>, r))"

text \<open>\<open>await page.title().catch(() => '')\<close>.\<close>

definition get_title ::
  "('w, 'h) engine \<Rightarrow> ('w, 'h) server \<Rightarrow> 'h \<Rightarrow> ('w, 'h) server \<times> string" where
  "get_title eng srv pg =
     (let (w', r) = page_title eng (world srv) pg
      in (srv\<lparr>world := w', calls := calls srv @ [ETitle pg]\<rparr>,
          (case r of Inl e \<Rightarrow> [] | Inr t \<Rightarrow> t)))"

text \<open>\<open>GET /session/:sessionId/screenshot\<close>.\<close>

definition get_screenshot ::
  "('w, 'h) engine \<Rightarrow> string option \<Rightarrow> ('w, 'h) server \<Rightarrow> string option \<Rightarrow> string \<Rightarrow>
     response \<times> ('w, 'h) server" where
  "get_screenshot eng SECRET srv auth sessionId =
     (let (ok, res) = checkAuth SECRET auth new_response
      in if \<not> ok then (res, srv)
         else
           (case sessions_get (sessions srv) (JStr sessionId) of
              None \<Rightarrow> (res_json 404 (ErrorBody ''Session not found'') res, srv)
            | Some ent \<Rightarrow>
                (let (s1, sh) = take_screenshot eng srv (page ent)
                 in case sh of
                      Inl e \<Rightarrow> (res_json 500 (ErrorBody (err_text e)) res, s1)
                    | Inr buf \<Rightarrow>
                        (let (s2, u) = get_url eng s1 (page ent)
                         in case u of
                              Inl e \<Rightarrow> (res_json 500 (ErrorBody (err_text e)) res, s2)
                            | Inr url \<Rightarrow>
                                (let (s3, title) = get_title eng s2 (page ent)
                                 in (res_json 200 (ScreenshotBody (shot_base64 buf) url title sessionId) res,
                                     s3))))))"

text \<open>\<open>GET /session/:sessionId/info\<close>.\<close>

definition get_info ::
  "('w, 'h) engine \<Rightarrow> string option \<Rightarrow> ('w, 'h) server \<Rightarrow> string option \<Rightarrow> string \<Rightarrow>
     response \<times> ('w, 'h) server" where
  "get_info eng SECRET srv auth sessionId =
     (let (ok, res) = checkAuth SECRET auth new_response
      in if \<not> ok then (res, srv)
         else
           (case sessions_get (sessions srv) (JStr sessionId) of
              None \<Rightarrow> (res_json 404 (ErrorBody ''Session not found'') res, srv)
            | Some ent \<Rightarrow>
                (let (s1, u) = get_url eng srv (page ent)
                 in case u of
                      Inl e \<Rightarrow> (res_json 500 (ErrorBody (err_text e)) res, s1)
                    | Inr url \<Rightarrow>
                        (let (s2, title) = get_title eng s1 (page ent)
                         in (res_json 200 (InfoBody url title sessionId) res, s2)))))"

text \<open>\<open>POST /session/:sessionId/interact\<close>.\<close>

record interact_body =
  i_action :: jsval
  i_x :: jsval
  i_y :: jsval
  i_text :: jsval
  i_url :: jsval
  i_key :: jsval

text \<open>
  The dispatch of the interact handler: a 400 with its message, the engine call to
  make, or an error thrown while building the message for an unknown action.
\<close>

datatype decision = Reject string | Perform cmd | Throws exn

definition interact_cmd :: "interact_body \<Rightarrow> decision" where
  "interact_cmd b =
     (if i_action b = JStr ''click'' then
        (if \<not> is_number (i_x b) \<or> \<not> is_number (i_y b) then Reject ''x and y required for click''
         else Perform (MouseClick (i_x b) (i_y b)))
      else if i_action b = JStr ''type'' then
        (if \<not> is_string (i_text b) then Reject ''text required for type''
         else Perform (KeyboardType (i_text b)))
      else if i_action b = JStr ''key'' then
        (if \<not> is_string (i_key b) then Reject ''key required for key action''
         else Perform (KeyboardPress (i_key b)))
      else if i_action b = JStr ''navigate'' then
        (if \<not> is_string (i_url b) then Reject ''url required for navigate''
         else Perform (Goto (i_url b) (JStr ''load'') (JNum 60000)))
      else if i_action b = JStr ''scroll'' then
        (if \<not> is_number (i_x b) \<or> \<not> is_number (i_y b) then Reject ''x and y (delta) required for scroll''
         else Perform (MouseWheel (i_x b) (i_y b)))
      else (case js_string (i_action b) of
              Inl e \<Rightarrow> Throws e
            | Inr t \<Rightarrow> Reject (''Unknown action: '' @ t)))"

definition interact ::
  "('w, 'h) engine \<Rightarrow> string option \<Rightarrow> env \<Rightarrow> ('w, 'h) server \<Rightarrow> string option \<Rightarrow> string \<Rightarrow>
     interact_body \<Rightarrow> response \<times> ('w, 'h) server" where
  "interact eng SECRET ev srv auth sessionId b =
     (let (ok, res) = checkAuth SECRET auth new_response
      in if \<not> ok then (res, srv)
         else
           (case sessions_get (sessions srv) (JStr sessionId) of
              None \<Rightarrow> (res_json 404 (ErrorBody ''Session not found'') res, srv)
            | Some ent0 \<Rightarrow>
                (let ent = ent0\<lparr>lastUsedAt := now ev\<rparr>;
                     srv1 = srv\<lparr>sessions := sessions_set (sessions srv) (JStr sessionId) ent\<rparr>
                 in case interact_cmd b of
                      Reject msg \<Rightarrow> (res_json 400 (ErrorBody msg) res, srv1)
                    | Throws e \<Rightarrow> (res_json 500 (ErrorBody (err_text e)) res, srv1)
                    | Perform c \<Rightarrow>
                        (let (s1, r) = do_cmd eng srv1 (page ent) c
                         in case r of
                              Some e \<Rightarrow> (res_json 500 (ErrorBody (err_text e)) res, s1)
                            | None \<Rightarrow>
                                (let (s2, sh) = take_screenshot eng s1 (page ent)
                                 in case sh of
                                      Inl e \<Rightarrow> (res_json 500 (ErrorBody (err_text e)) res, s2)
                                    | Inr buf \<Rightarrow>
                                        (let (s3, u) = get_url eng s2 (page ent)
                                         in case u of
                                              Inl e \<Rightarrow> (res_json 500 (ErrorBody (err_text e)) res, s3)
                                            | Inr url \<Rightarrow>
                                                (let (s4, title) = get_title eng s3 (page ent)
                                                 in (res_json 200
                                                       (ScreenshotBody (shot_base64 buf) url title sessionId) res,
                                                     s4))))))))"

text \<open>\<open>GET /health\<close>.\<close>

definition health :: "('w, 'h) server \<Rightarrow> response \<times> ('w, 'h) server" where
  "health srv = (res_json 200 (HealthBody (length (sessions srv))) new_response, srv)"

section \<open>Routing\<close>

text \<open>
  \<open>handle\<close> is the routing table: the handler a request reaches once the
  middleware registered before the routes has passed it on (see \<open>app\<close> below).
\<close>

datatype request =
    GetHealth
  | DeleteSession "string option" string
  | PostRun run_req
  | GetScreenshot "string option" string
  | GetInfo "string option" string
  | PostInteract "string option" string interact_body

fun handle ::
  "('w, 'h) engine \<Rightarrow> string option \<Rightarrow> env \<Rightarrow> ('w, 'h) server \<Rightarrow> request \<Rightarrow>
     response \<times> ('w, 'h) server" where
  "handle eng SECRET ev srv GetHealth = health srv"
| "handle eng SECRET ev srv (DeleteSession auth sid) = delete_session eng SECRET srv auth sid"
| "handle eng SECRET ev srv (PostRun req) = run eng SECRET ev srv req"
| "handle eng SECRET ev srv (GetScreenshot auth sid) = get_screenshot eng SECRET srv auth sid"
| "handle eng SECRET ev srv (GetInfo auth sid) = get_info eng SECRET srv auth sid"
| "handle eng SECRET ev srv (PostInteract auth sid b) = interact eng SECRET ev srv auth sid b"

text \<open>The \<open>Authorization\<close> header of a request to an authenticated endpoint.\<close>

fun auth_header :: "request \<Rightarrow> string option" where
  "auth_header GetHealth = None"
| "auth_header (DeleteSession auth sid) = auth"
| "auth_header (PostRun req) = authorization req"
| "auth_header (GetScreenshot auth sid) = auth"
| "auth_header (GetInfo auth sid) = auth"
| "auth_header (PostInteract auth sid b) = auth"

fun authenticated :: "request \<Rightarrow> bool" where
  "authenticated GetHealth = False"
| "authenticated r = True"

section \<open>The application: middleware, then routes\<close>

text \<open>
  \<open>app.use(cors())\<close> and \<open>app.use(express.json({ limit: '1mb' }))\<close> run before every
  route. \<open>cors\<close> only adds headers to the requests modelled here. The body parser
  reads a JSON body before any handler runs; what it makes of the raw body is part
  of the incoming request: it parses it (or there is none to parse), or it fails
  with the status of its error, 400 for malformed JSON, 413 for a body over the
  limit, 415 for an unsupported charset or encoding. A parser error goes to the
  default error handler, which answers with that status and an error page; no
  route handler runs.
\<close>

datatype body_parse = BodyParsed | BodyMalformed | BodyTooLarge | BodyUnsupported

fun parser_error :: "body_parse \<Rightarrow> nat option" where
  "parser_error BodyParsed = None"
| "parser_error BodyMalformed = Some 400"
| "parser_error BodyTooLarge = Some 413"
| "parser_error BodyUnsupported = Some 415"

definition res_error_page :: "nat \<Rightarrow> response \<Rightarrow> response" where
  "res_error_page code r = r\<lparr>headersSent := True, statusCode := code, ended := True, body := Some ErrorPage\<rparr>"

definition app ::
  "('w, 'h) engine \<Rightarrow> string option \<Rightarrow> env \<Rightarrow> ('w, 'h) server \<Rightarrow> body_parse \<Rightarrow> request \<Rightarrow>
     response \<times> ('w, 'h) server" where
  "app eng SECRET ev srv parsed req =
     (case parser_error parsed of
        Some code \<Rightarrow> (res_error_page code new_response, srv)
      | None \<Rightarrow> handle eng SECRET ev srv req)"

section \<open>Reading a response\<close>

text \<open>
  The aggregate a caller receives: the JSON body of a buffered response, or the
  last message of a stream when that is a done message.
\<close>

definition reply_payload :: "response \<Rightarrow> (bool \<times> string option \<times> step_result list \<times> jsval) option" where
  "reply_payload r =
     (case body r of
        Some (RunBody ok err rs sid) \<Rightarrow> Some (ok, err, rs, sid)
      | Some b \<Rightarrow> None
      | None \<Rightarrow>
          (case rev (written r) of
             DoneEvent ok err rs sid # earlier \<Rightarrow> Some (ok, err, rs, sid)
           | other \<Rightarrow> None))"

definition reply_steps :: "response \<Rightarrow> step_result list" where
  "reply_steps r = (case reply_payload r of Some (ok, err, rs, sid) \<Rightarrow> rs | None \<Rightarrow> [])"

definition reply_success :: "response \<Rightarrow> bool option" where
  "reply_success r = (case reply_payload r of Some (ok, err, rs, sid) \<Rightarrow> Some ok | None \<Rightarrow> None)"

text \<open>A steps field the handler accepts: an array of 1 to 15 items.\<close>

definition steps_ok :: "jsval \<Rightarrow> bool" where
  "steps_ok v = (case v of JArr ss \<Rightarrow> 1 \<le> length ss \<and> length ss \<le> 15 | _ \<Rightarrow> False)"

text \<open>The step events of a stream, in the order written.\<close>

fun step_events :: "sse list \<Rightarrow> step_result list" where
  "step_events [] = []"
| "step_events (StepEvent p # ms) = p # step_events ms"
| "step_events (DoneEvent ok err rs sid # ms) = step_events ms"

fun is_done :: "sse \<Rightarrow> bool" where
  "is_done (DoneEvent ok err rs sid) = True"
| "is_done (StepEvent p) = False"

text \<open>The action a step is executed under: \<open>step.action || 'snapshot'\<close>.\<close>

definition action_of :: "jsval \<Rightarrow> jsval" where
  "action_of step = js_or (js_prop step ''action'') (JStr ''snapshot'')"

text \<open>The state in which step \<open>i\<close> of a run starts.\<close>

definition state_before ::
  "('w, 'h) engine \<Rightarrow> bool \<Rightarrow> 'h \<Rightarrow> jsval list \<Rightarrow> ('w, 'h) run_state \<Rightarrow> nat \<Rightarrow> ('w, 'h) run_state" where
  "state_before eng stream pg ss st0 i = fst (step_loop eng stream pg 0 (take i ss) st0)"

section \<open>Two small engines to run the handlers on\<close>

text \<open>
  \<open>demo_engine\<close> counts its calls in the world and hands out the count as handle.
  Clicking \<open>#missing\<close> times out; everything else succeeds.
\<close>

definition demo_engine :: "(nat, nat) engine" where
  "demo_engine =
     \<lparr>launch = (\<lambda>w. (Suc w, Inr w)),
      newContext = (\<lambda>w b. (Suc w, Inr b)),
      newPage = (\<lambda>w c. (Suc w, Inr c)),
      page_do = (\<lambda>w h c. (Suc w,
         (if c = Click (JStr ''#missing'') then Some (Exn TimeoutErrorN ''Timeout 10000ms exceeded'') else None))),
      page_screenshot = (\<lambda>w h. (Suc w, Inr (ShotBuffer ''iVBORw0KGgo=''))),
      page_url = (\<lambda>w h. (Suc w, Inr ''about:blank'')),
      page_title = (\<lambda>w h. (Suc w, Inr [])),
      browser_close = (\<lambda>w h. Suc w)\<rparr>"

text \<open>\<open>crashed_engine\<close> launches, but its pages have crashed: every page call rejects.\<close>

definition crashed_engine :: "(nat, nat) engine" where
  "crashed_engine =
     \<lparr>launch = (\<lambda>w. (Suc w, Inr w)),
      newContext = (\<lambda>w b. (Suc w, Inr b)),
      newPage = (\<lambda>w c. (Suc w, Inr c)),
      page_do = (\<lambda>w h c. (Suc w, Some (Exn ErrorN ''Target crashed''))),
      page_screenshot = (\<lambda>w h. (Suc w, Inl (Exn ErrorN ''Target crashed''))),
      page_url = (\<lambda>w h. (Suc w, Inl (Exn ErrorN ''Target crashed''))),
      page_title = (\<lambda>w h. (Suc w, Inl (Exn ErrorN ''Target crashed''))),
      browser_close = (\<lambda>w h. Suc w)\<rparr>"

text \<open>\<open>no_browser_engine\<close> cannot launch a browser.\<close>

definition no_browser_engine :: "(nat, nat) engine" where
  "no_browser_engine = demo_engine\<lparr>launch := (\<lambda>w. (Suc w, Inl (Exn ErrorN ''Failed to launch browser'')))\<rparr>"

definition empty_server :: "(nat, nat) server" where
  "empty_server = \<lparr>sessions = [], world = 0, calls = []\<rparr>"

definition demo_env :: env where
  "demo_env = \<lparr>now = 1000, randomId = ''sess_x_1''\<rparr>"

definition plain_run :: "jsval list \<Rightarrow> run_req" where
  "plain_run ss = \<lparr>authorization = None, query_stream = None, accept = None,
                   body_steps = JArr ss, body_sessionId = JUndefined\<rparr>"

definition stream_run :: "jsval list \<Rightarrow> run_req" where
  "stream_run ss = \<lparr>authorization = None, query_stream = Some ''1'', accept = None,
                    body_steps = JArr ss, body_sessionId = JUndefined\<rparr>"

text \<open>The example of the specification: a navigation, then a click on an element that
  does not exist.\<close>

definition example_steps :: "jsval list" where
  "example_steps =
     [JObj [(''action'', JStr ''navigate''), (''url'', JStr ''https://example.com'')],
      JObj [(''action'', JStr ''click''), (''selector'', JStr ''#missing'')]]"

text \<open>A server holding one session \<open>s1\<close>, last used at time 0.\<close>

definition one_session_server :: "(nat, nat) server" where
  "one_session_server =
     \<lparr>sessions = [(JStr ''s1'', \<lparr>browser = 0, bcontext = 0, page = 0, lastUsedAt = 0\<rparr>)],
      world = 3, calls = [ELaunch, ENewContext 0, ENewPage 0]\<rparr>"

text \<open>A snapshot step, and the body of a coordinate click.\<close>

definition snapshot_step :: jsval where
  "snapshot_step = JObj [(''action'', JStr ''snapshot'')]"

definition click_body :: interact_body where
  "click_body = \<lparr>i_action = JStr ''click'', i_x = JNum 10, i_y = JNum 20, i_text = JUndefined,
                 i_url = JUndefined, i_key = JUndefined\<rparr>"


definition lenient_steps :: "jsval list" where
  "lenient_steps = [JObj [(''action'', JStr ''bogus'')], JObj []]"

definition reuse_run :: run_req where
  "reuse_run = \<lparr>authorization = None, query_stream = Some ''1'', accept = None,
                body_steps = JArr [snapshot_step], body_sessionId = JStr ''s1''\<rparr>"

section \<open>Facts about single steps and the loop\<close>

lemmas engine_eval =
  demo_engine_def crashed_engine_def no_browser_engine_def empty_server_def demo_env_def
  plain_run_def stream_run_def

lemmas handler_eval =
  run_def run_try_def run_respond_def loop_start_def is_stream_def checkAuth_def bearer_token_def
  getOrCreateSession_def createNewSession_def closeSession_def
  sessions_get_def sessions_set_def sessions_delete_def
  exec_step_def try_body_def step_action_def do_cmd_def take_screenshot_def shot_base64_def
  emitStep_def get_field_def js_prop_def js_or_def js_nullish_def no_error_def
  is_number_def is_string_def action_of_def state_before_def
  new_response_def res_json_def res_write_def res_end_def flushHeaders_def
  reply_payload_def reply_steps_def reply_success_def Let_def

lemma err_text_nonempty: "err_text e \<noteq> []"
  by (cases e; rename_tac n m; case_tac n) auto

lemma exec_step_index: "stepIndex (snd (exec_step eng srv pg i step act)) = i"
  by (simp add: exec_step_def Let_def split: prod.splits sum.splits)

lemma exec_step_action: "action (snd (exec_step eng srv pg i step act)) = act"
  by (simp add: exec_step_def Let_def split: prod.splits sum.splits)


lemma step_loop_extends:
  "\<exists>new. results (fst (step_loop eng stream pg i ss st)) = results st @ new"
proof (induction ss arbitrary: i st)
  case Nil
  show ?case by simp
next
  case (Cons s ss)
  show ?case
  proof (cases "get_field s ''action''")
    case (Inl e)
    then show ?thesis by simp
  next
    case (Inr a)
    obtain srv' payload where ex: "exec_step eng (st_srv st) pg i s (js_or a (JStr ''snapshot'')) = (srv', payload)"
      by (cases "exec_step eng (st_srv st) pg i s (js_or a (JStr ''snapshot''))")
    from Cons.IH[of "Suc i" "emitStep stream payload (st\<lparr>st_srv := srv'\<rparr>)"]
    obtain new where "results (fst (step_loop eng stream pg (Suc i) ss (emitStep stream payload (st\<lparr>st_srv := srv'\<rparr>))))
        = results (emitStep stream payload (st\<lparr>st_srv := srv'\<rparr>)) @ new" by blast
    then show ?thesis using Inr ex by (simp add: emitStep_def)
  qed
qed

lemma step_loop_length:
  "snd (step_loop eng stream pg i ss st) = None \<Longrightarrow>
     length (results (fst (step_loop eng stream pg i ss st))) = length (results st) + length ss"
proof (induction ss arbitrary: i st)
  case Nil
  show ?case by simp
next
  case (Cons s ss)
  show ?case
  proof (cases "get_field s ''action''")
    case (Inl e)
    with Cons.prems show ?thesis by simp
  next
    case (Inr a)
    obtain srv' payload where ex: "exec_step eng (st_srv st) pg i s (js_or a (JStr ''snapshot'')) = (srv', payload)"
      by (cases "exec_step eng (st_srv st) pg i s (js_or a (JStr ''snapshot''))")
    from Cons.prems Inr ex
    have "snd (step_loop eng stream pg (Suc i) ss (emitStep stream payload (st\<lparr>st_srv := srv'\<rparr>))) = None"
      by simp
    from Cons.IH[OF this] show ?thesis using Inr ex by (simp add: emitStep_def)
  qed
qed

lemma step_loop_no_escape:
  "\<forall>s\<in>set ss. s \<noteq> JNull \<and> s \<noteq> JUndefined \<Longrightarrow> snd (step_loop eng stream pg i ss st) = None"
  by (induction ss arbitrary: i st) (auto simp: get_field_def Let_def split: prod.splits)

lemma step_loop_indices:
  "snd (step_loop eng stream pg i ss st) = None \<Longrightarrow>
     map stepIndex (results (fst (step_loop eng stream pg i ss st))) =
       map stepIndex (results st) @ [i..<i + length ss] \<and>
     map action (results (fst (step_loop eng stream pg i ss st))) =
       map action (results st) @ map action_of ss"
proof (induction ss arbitrary: i st)
  case Nil
  show ?case by simp
next
  case (Cons s ss)
  show ?case
  proof (cases "get_field s ''action''")
    case (Inl e)
    with Cons.prems show ?thesis by simp
  next
    case (Inr a)
    obtain srv' payload where ex: "exec_step eng (st_srv st) pg i s (js_or a (JStr ''snapshot'')) = (srv', payload)"
      by (cases "exec_step eng (st_srv st) pg i s (js_or a (JStr ''snapshot''))")
    have p: "stepIndex payload = i" "action payload = js_or a (JStr ''snapshot'')"
      using exec_step_index[of eng "st_srv st" pg i s "js_or a (JStr ''snapshot'')"]
            exec_step_action[of eng "st_srv st" pg i s "js_or a (JStr ''snapshot'')"] ex by simp_all
    have a: "a = js_prop s ''action''"
      using Inr by (simp add: get_field_def split: if_splits)
    have range: "[i..<i + length (s # ss)] = i # [Suc i..<Suc i + length ss]"
      by (simp add: upt_conv_Cons del: upt_Suc)
    from Cons.prems Inr ex
    have "snd (step_loop eng stream pg (Suc i) ss (emitStep stream payload (st\<lparr>st_srv := srv'\<rparr>))) = None"
      by simp
    from Cons.IH[OF this] show ?thesis unfolding range using Inr ex p a
      by (simp add: emitStep_def action_of_def del: upt_Suc)
  qed
qed

lemma checkAuth_pass: "fst (checkAuth SECRET auth r) \<Longrightarrow> checkAuth SECRET auth r = (True, r)"
  by (auto simp: checkAuth_def split: if_splits)

lemma checkAuth_fail:
  "\<not> fst (checkAuth SECRET auth r) \<Longrightarrow> checkAuth SECRET auth r = (False, res_json 401 (ErrorBody ''Unauthorized'') r)"
  by (auto simp: checkAuth_def split: if_splits)

lemma run_accepted:
  assumes "fst (checkAuth SECRET (authorization req) new_response)"
    and "body_steps req = JArr ss" and "0 < length ss" and "length ss \<le> 15"
  shows "run eng SECRET ev srv req =
           (run_respond (is_stream req) (run_try eng ev srv (is_stream req) ss (body_sessionId req)),
            st_srv (fst (run_try eng ev srv (is_stream req) ss (body_sessionId req))))"
  using assms by (simp add: run_def checkAuth_pass Let_def)

lemma run_try_resolved:
  assumes "getOrCreateSession eng ev srv (js_or rid JNull) = (srv1, Inr (sid, ent))"
  shows "run_try eng ev srv stream ss rid =
           (fst (step_loop eng stream (page ent) 0 ss (loop_start stream srv1)),
            snd (step_loop eng stream (page ent) 0 ss (loop_start stream srv1)), sid)"
  using assms by (simp add: run_try_def Let_def split: prod.splits)

lemma loop_start_simps:
  "results (loop_start stream srv1) = []" "st_srv (loop_start stream srv1) = srv1"
  "written (st_res (loop_start stream srv1)) = []"
  "body (st_res (loop_start stream srv1)) = None"
  "headersSent (st_res (loop_start stream srv1)) = stream"
  "ended (st_res (loop_start stream srv1)) = False"
  by (simp_all add: loop_start_def flushHeaders_def new_response_def)

lemma step_loop_res:
  "body (st_res (fst (step_loop eng stream pg i ss st))) = body (st_res st) \<and>
   ended (st_res (fst (step_loop eng stream pg i ss st))) = ended (st_res st) \<and>
   (headersSent (st_res st) \<longrightarrow> headersSent (st_res (fst (step_loop eng stream pg i ss st))))"
  by (induction ss arbitrary: i st)
     (auto simp: Let_def emitStep_def res_write_def split: sum.splits prod.splits)

lemma reply_of_success:
  "body (st_res st) = None \<Longrightarrow>
   reply_payload (run_respond stream (st, None, sid)) = Some (True, None, results st, sid)"
  by (simp add: run_respond_def reply_payload_def res_json_def res_end_def res_write_def)

text \<open>The auth gate lets exactly the header \<open>Bearer <secret>\<close> through.\<close>

lemma bearer_token_iff: "bearer_token auth = Some s \<longleftrightarrow> auth = Some (''Bearer '' @ s)"
proof (cases auth)
  case None
  then show ?thesis by (simp add: bearer_token_def)
next
  case (Some a)
  have "take 7 a = ''Bearer '' \<and> drop 7 a = s \<longleftrightarrow> a = ''Bearer '' @ s"
  proof
    assume h: "take 7 a = ''Bearer '' \<and> drop 7 a = s"
    have "a = take 7 a @ drop 7 a" by simp
    with h show "a = ''Bearer '' @ s" by simp
  next
    assume "a = ''Bearer '' @ s"
    then show "take 7 a = ''Bearer '' \<and> drop 7 a = s" by simp
  qed
  with Some show ?thesis by (auto simp add: bearer_token_def)
qed

lemma checkAuth_reject:
  assumes "s \<noteq> []" and "auth \<noteq> Some (''Bearer '' @ s)"
  shows "checkAuth (Some s) auth r = (False, res_json 401 (ErrorBody ''Unauthorized'') r)"
  using assms bearer_token_iff[of auth s] by (simp add: checkAuth_def)

lemma checkAuth_accept: "checkAuth (Some s) (Some (''Bearer '' @ s)) r = (True, r)"
  using bearer_token_iff[of "Some (''Bearer '' @ s)" s] by (simp add: checkAuth_def)

lemma sessions_get_delete: "sessions_get (sessions_delete m k) k = None"
  by (simp add: sessions_get_def sessions_delete_def delete_conv')

text \<open>The stream and the collected results grow together; the registry is not touched by
  page calls.\<close>

lemma step_loop_stream_written:
  "headersSent (st_res st) \<Longrightarrow> written (st_res st) = map StepEvent (results st) \<Longrightarrow>
     written (st_res (fst (step_loop eng True pg i ss st))) =
       map StepEvent (results (fst (step_loop eng True pg i ss st)))"
proof (induction ss arbitrary: i st)
  case Nil
  then show ?case by simp
next
  case (Cons s ss)
  show ?case
  proof (cases "get_field s ''action''")
    case (Inl e)
    with Cons.prems show ?thesis by simp
  next
    case (Inr a)
    obtain srv' payload where ex: "exec_step eng (st_srv st) pg i s (js_or a (JStr ''snapshot'')) = (srv', payload)"
      by (cases "exec_step eng (st_srv st) pg i s (js_or a (JStr ''snapshot''))")
    let ?next = "emitStep True payload (st\<lparr>st_srv := srv'\<rparr>)"
    have h: "headersSent (st_res ?next)" and w: "written (st_res ?next) = map StepEvent (results ?next)"
      using Cons.prems by (simp_all add: emitStep_def res_write_def)
    from Cons.IH[OF h w] show ?thesis using Inr ex by simp
  qed
qed

lemma step_loop_buffered_res: "st_res (fst (step_loop eng False pg i ss st)) = st_res st"
  by (induction ss arbitrary: i st) (auto simp: Let_def emitStep_def split: sum.splits prod.splits)

lemma step_loop_consecutive:
  "map stepIndex (results st) = [0..<length (results st)] \<Longrightarrow> i = length (results st) \<Longrightarrow>
     map stepIndex (results (fst (step_loop eng stream pg i ss st))) =
       [0..<length (results (fst (step_loop eng stream pg i ss st)))]"
proof (induction ss arbitrary: i st)
  case Nil
  then show ?case by simp
next
  case (Cons s ss)
  show ?case
  proof (cases "get_field s ''action''")
    case (Inl e)
    with Cons.prems show ?thesis by simp
  next
    case (Inr a)
    obtain srv' payload where ex: "exec_step eng (st_srv st) pg i s (js_or a (JStr ''snapshot'')) = (srv', payload)"
      by (cases "exec_step eng (st_srv st) pg i s (js_or a (JStr ''snapshot''))")
    have p: "stepIndex payload = i"
      using exec_step_index[of eng "st_srv st" pg i s "js_or a (JStr ''snapshot'')"] ex by simp
    let ?next = "emitStep stream payload (st\<lparr>st_srv := srv'\<rparr>)"
    have a: "map stepIndex (results ?next) = [0..<length (results ?next)]"
      and b: "Suc i = length (results ?next)"
      using Cons.prems p by (simp_all add: emitStep_def)
    from Cons.IH[OF a b] show ?thesis using Inr ex by simp
  qed
qed

lemma step_loop_stream_independent:
  "st_srv st1 = st_srv st2 \<Longrightarrow> results st1 = results st2 \<Longrightarrow>
     st_srv (fst (step_loop eng s1 pg i ss st1)) = st_srv (fst (step_loop eng s2 pg i ss st2)) \<and>
     results (fst (step_loop eng s1 pg i ss st1)) = results (fst (step_loop eng s2 pg i ss st2)) \<and>
     snd (step_loop eng s1 pg i ss st1) = snd (step_loop eng s2 pg i ss st2)"
proof (induction ss arbitrary: i st1 st2)
  case Nil
  then show ?case by simp
next
  case (Cons s ss)
  show ?case
  proof (cases "get_field s ''action''")
    case (Inl e)
    with Cons.prems show ?thesis by simp
  next
    case (Inr a)
    obtain srv' payload where ex: "exec_step eng (st_srv st1) pg i s (js_or a (JStr ''snapshot'')) = (srv', payload)"
      by (cases "exec_step eng (st_srv st1) pg i s (js_or a (JStr ''snapshot''))")
    let ?n1 = "emitStep s1 payload (st1\<lparr>st_srv := srv'\<rparr>)"
    let ?n2 = "emitStep s2 payload (st2\<lparr>st_srv := srv'\<rparr>)"
    have a: "st_srv ?n1 = st_srv ?n2" and b: "results ?n1 = results ?n2"
      using Cons.prems by (simp_all add: emitStep_def)
    from Cons.IH[OF a b, of "Suc i"] show ?thesis using Inr ex Cons.prems(1) by simp
  qed
qed

lemma run_try_stream_state:
  "headersSent (st_res (fst (run_try eng ev srv True ss rid))) \<and>
   body (st_res (fst (run_try eng ev srv True ss rid))) = None \<and>
   written (st_res (fst (run_try eng ev srv True ss rid))) =
     map StepEvent (results (fst (run_try eng ev srv True ss rid))) \<and>
   map stepIndex (results (fst (run_try eng ev srv True ss rid))) =
     [0..<length (results (fst (run_try eng ev srv True ss rid)))]"
proof (cases "getOrCreateSession eng ev srv (js_or rid JNull)")
  case (Pair srv1 r)
  show ?thesis
  proof (cases r)
    case (Inl e)
    with Pair show ?thesis by (simp add: run_try_def loop_start_simps)
  next
    case (Inr x)
    obtain sid ent where x: "x = (sid, ent)" by (cases x)
    let ?start = "loop_start True srv1 :: ('a, 'b) run_state"
    have rt: "fst (run_try eng ev srv True ss rid) = fst (step_loop eng True (page ent) 0 ss ?start)"
      using run_try_resolved[of eng ev srv rid srv1 sid ent True ss] Pair Inr x by simp
    have h: "headersSent (st_res ?start)" and w: "written (st_res ?start) = map StepEvent (results ?start)"
      and c: "map stepIndex (results ?start) = [0..<length (results ?start)]" and z: "0 = length (results ?start)"
      by (simp_all add: loop_start_simps)
    show ?thesis
      unfolding rt
      using step_loop_res[of eng True "page ent" 0 ss ?start]
            step_loop_stream_written[OF h w, of eng "page ent" 0 ss]
            step_loop_consecutive[OF c z, of eng True "page ent" ss]
      by (simp add: loop_start_simps)
  qed
qed

lemma run_respond_stream:
  "headersSent (st_res st) \<Longrightarrow>
     written (run_respond True (st, esc, sid)) =
       written (st_res st) @ [DoneEvent (esc = None) (map_option err_text esc) (results st) sid] \<and>
     ended (run_respond True (st, esc, sid)) \<and>
     body (run_respond True (st, esc, sid)) = body (st_res st)"
  by (cases esc) (simp_all add: run_respond_def res_end_def res_write_def)

lemma run_respond_buffered:
  "body (run_respond False (st, esc, sid)) =
     Some (RunBody (esc = None) (map_option err_text esc) (results st) sid) \<and>
   written (run_respond False (st, esc, sid)) = written (st_res st)"
  by (cases esc) (simp_all add: run_respond_def res_json_def)

lemma run_try_stream_independent:
  "st_srv (fst (run_try eng ev srv s1 ss rid)) = st_srv (fst (run_try eng ev srv s2 ss rid)) \<and>
   results (fst (run_try eng ev srv s1 ss rid)) = results (fst (run_try eng ev srv s2 ss rid)) \<and>
   snd (run_try eng ev srv s1 ss rid) = snd (run_try eng ev srv s2 ss rid)"
proof (cases "getOrCreateSession eng ev srv (js_or rid JNull)")
  case (Pair srv1 r)
  show ?thesis
  proof (cases r)
    case (Inl e)
    with Pair show ?thesis by (simp add: run_try_def loop_start_simps)
  next
    case (Inr x)
    obtain sid ent where x: "x = (sid, ent)" by (cases x)
    have g: "getOrCreateSession eng ev srv (js_or rid JNull) = (srv1, Inr (sid, ent))"
      using Pair Inr x by simp
    have a: "st_srv (loop_start s1 srv1) = st_srv (loop_start s2 srv1)"
      and b: "results (loop_start s1 srv1) = results (loop_start s2 srv1)"
      by (simp_all add: loop_start_simps)
    show ?thesis
      using run_try_resolved[OF g, of s1 ss] run_try_resolved[OF g, of s2 ss]
            step_loop_stream_independent[OF a b, of eng s1 "page ent" 0 ss s2]
      by simp
  qed
qed

lemma step_events_steps: "step_events (map StepEvent rs @ [DoneEvent ok err rs' sid]) = rs"
  by (induction rs) simp_all

lemma filter_done_steps: "filter is_done (map StepEvent rs @ [DoneEvent ok err rs' sid]) = [DoneEvent ok err rs' sid]"
  by (induction rs) simp_all

lemma step_loop_nth_from:
  "length (results st) + j < length (results (fst (step_loop eng stream pg i ss st))) \<Longrightarrow>
     j < length ss \<and>
     results (fst (step_loop eng stream pg i ss st)) ! (length (results st) + j) =
       snd (exec_step eng (st_srv (fst (step_loop eng stream pg i (take j ss) st))) pg (i + j)
              (ss ! j) (action_of (ss ! j)))"
proof (induction ss arbitrary: i st j)
  case Nil
  then show ?case by simp
next
  case (Cons s ss)
  show ?case
  proof (cases "get_field s ''action''")
    case (Inl e)
    with Cons.prems show ?thesis by simp
  next
    case (Inr a)
    have act: "js_or a (JStr ''snapshot'') = action_of s"
      using Inr by (auto simp add: get_field_def action_of_def split: if_splits)
    obtain srv' payload where ex: "exec_step eng (st_srv st) pg i s (action_of s) = (srv', payload)"
      by (cases "exec_step eng (st_srv st) pg i s (action_of s)")
    let ?next = "emitStep stream payload (st\<lparr>st_srv := srv'\<rparr>)"
    have unfold: "step_loop eng stream pg i (s # xs) st = step_loop eng stream pg (Suc i) xs ?next" for xs
      using Inr act ex by simp
    have rn: "results ?next = results st @ [payload]" by (simp add: emitStep_def)
    show ?thesis
    proof (cases j)
      case 0
      obtain new where "results (fst (step_loop eng stream pg (Suc i) ss ?next)) = results ?next @ new"
        using step_loop_extends[of eng stream pg "Suc i" ss ?next] by blast
      then have "results (fst (step_loop eng stream pg i (s # ss) st)) ! length (results st) = payload"
        using unfold[of ss] rn by (simp add: nth_append)
      then show ?thesis using 0 ex by simp
    next
      case (Suc k)
      have "length (results ?next) + k < length (results (fst (step_loop eng stream pg (Suc i) ss ?next)))"
        using Cons.prems unfold[of ss] rn Suc by simp
      from Cons.IH[OF this] show ?thesis
        using unfold[of ss] unfold[of "take k ss"] rn Suc by simp
    qed
  qed
qed

lemma step_loop_headers:
  "headersSent (st_res (fst (step_loop eng stream pg i ss (loop_start stream srv1)))) = stream"
proof (cases stream)
  case True
  then show ?thesis
    using step_loop_res[of eng True pg i ss "loop_start True srv1"] by (simp add: loop_start_simps)
next
  case False
  then show ?thesis by (simp add: step_loop_buffered_res loop_start_simps)
qed

lemma reply_of_respond:
  "body (st_res st) = None \<Longrightarrow> headersSent (st_res st) = stream \<Longrightarrow>
   reply_payload (run_respond stream (st, esc, sid)) =
     Some (esc = None, map_option err_text esc, results st, sid)"
  by (cases esc; cases stream)
     (simp_all add: run_respond_def reply_payload_def res_json_def res_end_def res_write_def)

lemma resolved_id_defined:
  "getOrCreateSession eng ev srv (js_or rid JNull) = (srv1, Inr (sid, ent)) \<Longrightarrow> sid \<noteq> JUndefined"
  by (auto simp add: getOrCreateSession_def js_or_def Let_def
           split: option.splits prod.splits sum.splits if_splits)

lemma run_try_sid:
  "(snd (snd (run_try eng ev srv stream ss rid)) = JUndefined) =
     isl (snd (getOrCreateSession eng ev srv (js_or rid JNull)))"
proof (cases "getOrCreateSession eng ev srv (js_or rid JNull)")
  case (Pair srv1 r)
  show ?thesis
  proof (cases r)
    case (Inl e)
    with Pair show ?thesis by (simp add: run_try_def)
  next
    case (Inr x)
    obtain sid ent where x: "x = (sid, ent)" by (cases x)
    have g: "getOrCreateSession eng ev srv (js_or rid JNull) = (srv1, Inr (sid, ent))"
      using Pair Inr x by simp
    from resolved_id_defined[OF g] run_try_resolved[OF g, of stream ss] g
    show ?thesis by simp
  qed
qed

lemma steps_ok_iff: "steps_ok v \<longleftrightarrow> (\<exists>ss. v = JArr ss \<and> 0 < length ss \<and> length ss \<le> 15)"
  by (cases v) (auto simp: steps_ok_def Suc_le_eq)

lemma run_rejected:
  assumes "\<not> (fst (checkAuth SECRET (authorization req) new_response) \<and> steps_ok (body_steps req))"
  shows "snd (run eng SECRET ev srv req) = srv \<and> written (fst (run eng SECRET ev srv req)) = [] \<and>
         reply_steps (fst (run eng SECRET ev srv req)) = []"
proof (cases "fst (checkAuth SECRET (authorization req) new_response)")
  case True
  with assms have "\<not> steps_ok (body_steps req)" by simp
  with checkAuth_pass[OF True] show ?thesis
    by (cases "body_steps req")
       (auto simp add: run_def steps_ok_def res_json_def new_response_def Let_def Suc_le_eq
          reply_steps_def reply_payload_def)
next
  case False
  from checkAuth_fail[OF False] show ?thesis
    by (simp add: run_def res_json_def new_response_def reply_steps_def reply_payload_def)
qed

lemma navigate_defaults_url:
  assumes "\<not> truthy (js_prop step ''url'')" and "js_prop step ''waitUntil'' = JUndefined"
  shows "step_action eng srv pg step (JStr ''navigate'') =
           do_cmd eng srv pg (Goto (JStr ''about:blank'') (JStr ''load'')
                                (js_nullish (js_prop step ''timeout'') (JNum 60000)))"
  using assms by (simp add: step_action_def js_or_def)

lemma unlisted_falls_through:
  assumes "js_prop step ''action'' \<notin> set [JStr ''navigate'', JStr ''wait'', JStr ''click'', JStr ''fill'']"
  shows "step_action eng srv pg step (action_of step) = (srv, None)"
  using assms by (simp add: step_action_def action_of_def js_or_def)

lemma exec_step_fall_through:
  assumes "step_action eng srv pg step act = (srv, None)"
  shows "exec_step eng srv pg i step act =
           (case take_screenshot eng srv pg of
              (s1, Inr buf) \<Rightarrow>
                (s1, \<lparr>stepIndex = i, action = act, screenshotBase64 = shot_base64 buf,
                      success = True, error = None\<rparr>)
            | (s1, Inl e) \<Rightarrow>
                (case take_screenshot eng s1 pg of
                   (s2, sh) \<Rightarrow>
                     (s2, \<lparr>stepIndex = i, action = act,
                           screenshotBase64 = (case sh of Inl e2 \<Rightarrow> None | Inr buf \<Rightarrow> shot_base64 buf),
                           success = False, error = Some (err_text e)\<rparr>)))"
  using assms
  by (auto simp add: exec_step_def try_body_def no_error_def err_text_nonempty Let_def
           split: prod.splits sum.splits)

lemmas endpoint_eval =
  get_screenshot_def get_info_def interact_def interact_cmd_def get_url_def get_title_def
  delete_session_def health_def one_session_server_def

lemma do_cmd_sessions: "sessions (fst (do_cmd eng srv pg c)) = sessions srv"
  by (simp add: do_cmd_def split: prod.splits)

lemma take_screenshot_sessions: "sessions (fst (take_screenshot eng srv pg)) = sessions srv"
  by (simp add: take_screenshot_def split: prod.splits)

lemma get_url_sessions: "sessions (fst (get_url eng srv pg)) = sessions srv"
  by (simp add: get_url_def split: prod.splits)

lemma get_title_sessions: "sessions (fst (get_title eng srv pg)) = sessions srv"
  by (simp add: get_title_def split: prod.splits)

lemma step_action_sessions: "sessions (fst (step_action eng srv pg step act)) = sessions srv"
  by (simp add: step_action_def do_cmd_def Let_def split: prod.splits option.splits sum.splits)

lemma exec_step_sessions: "sessions (fst (exec_step eng srv pg i step act)) = sessions srv"
proof -
  obtain s1 r where a: "step_action eng srv pg step act = (s1, r)" by (cases "step_action eng srv pg step act")
  have s1: "sessions s1 = sessions srv" using step_action_sessions[of eng srv pg step act] a by simp
  obtain s2 sh where b: "take_screenshot eng s1 pg = (s2, sh)" by (cases "take_screenshot eng s1 pg")
  have s2: "sessions s2 = sessions srv" using take_screenshot_sessions[of eng s1 pg] b s1 by simp
  obtain s3 sh3 where c: "take_screenshot eng s2 pg = (s3, sh3)" by (cases "take_screenshot eng s2 pg")
  have s3: "sessions s3 = sessions srv" using take_screenshot_sessions[of eng s2 pg] c s2 by simp
  show ?thesis
    using a b c s1 s2 s3
    by (auto simp add: exec_step_def try_body_def Let_def split: option.splits sum.splits prod.splits)
qed

lemma step_loop_sessions:
  "sessions (st_srv (fst (step_loop eng stream pg i ss st))) = sessions (st_srv st)"
proof (induction ss arbitrary: i st)
  case Nil
  show ?case by simp
next
  case (Cons s ss)
  show ?case
  proof (cases "get_field s ''action''")
    case (Inl e)
    then show ?thesis by simp
  next
    case (Inr a)
    obtain srv' payload where ex: "exec_step eng (st_srv st) pg i s (js_or a (JStr ''snapshot'')) = (srv', payload)"
      by (cases "exec_step eng (st_srv st) pg i s (js_or a (JStr ''snapshot''))")
    have "sessions srv' = sessions (st_srv st)"
      using exec_step_sessions[of eng "st_srv st" pg i s "js_or a (JStr ''snapshot'')"] ex by simp
    then show ?thesis
      using Cons.IH[of "Suc i" "emitStep stream payload (st\<lparr>st_srv := srv'\<rparr>)"] Inr ex
      by (simp add: emitStep_def)
  qed
qed

lemma get_screenshot_keeps_sessions:
  "sessions (snd (get_screenshot eng SECRET srv auth sessionId)) = sessions srv"
proof (cases "sessions_get (sessions srv) (JStr sessionId)")
  case None
  then show ?thesis by (simp add: get_screenshot_def split: prod.splits)
next
  case (Some ent)
  obtain s1 sh where a: "take_screenshot eng srv (page ent) = (s1, sh)" by (cases "take_screenshot eng srv (page ent)")
  have s1: "sessions s1 = sessions srv" using take_screenshot_sessions[of eng srv "page ent"] a by simp
  obtain s2 u where b: "get_url eng s1 (page ent) = (s2, u)" by (cases "get_url eng s1 (page ent)")
  have s2: "sessions s2 = sessions srv" using get_url_sessions[of eng s1 "page ent"] b s1 by simp
  obtain s3 t where c: "get_title eng s2 (page ent) = (s3, t)" by (cases "get_title eng s2 (page ent)")
  have s3: "sessions s3 = sessions srv" using get_title_sessions[of eng s2 "page ent"] c s2 by simp
  show ?thesis
    using Some a b c s1 s2 s3
    by (auto simp add: get_screenshot_def Let_def split: prod.splits sum.splits)
qed

lemma get_info_keeps_sessions:
  "sessions (snd (get_info eng SECRET srv auth sessionId)) = sessions srv"
proof (cases "sessions_get (sessions srv) (JStr sessionId)")
  case None
  then show ?thesis by (simp add: get_info_def split: prod.splits)
next
  case (Some ent)
  obtain s1 u where b: "get_url eng srv (page ent) = (s1, u)" by (cases "get_url eng srv (page ent)")
  have s1: "sessions s1 = sessions srv" using get_url_sessions[of eng srv "page ent"] b by simp
  obtain s2 t where c: "get_title eng s1 (page ent) = (s2, t)" by (cases "get_title eng s1 (page ent)")
  have s2: "sessions s2 = sessions srv" using get_title_sessions[of eng s1 "page ent"] c s1 by simp
  show ?thesis
    using Some b c s1 s2
    by (auto simp add: get_info_def Let_def split: prod.splits sum.splits)
qed

lemma interact_refreshes:
  assumes auth: "fst (checkAuth SECRET auth new_response)"
    and found: "sessions_get (sessions srv) (JStr sessionId) = Some ent"
  shows "sessions (snd (interact eng SECRET ev srv auth sessionId b)) =
           sessions_set (sessions srv) (JStr sessionId) (ent\<lparr>lastUsedAt := now ev\<rparr>)"
proof -
  let ?ent = "ent\<lparr>lastUsedAt := now ev\<rparr>"
  let ?srv1 = "srv\<lparr>sessions := sessions_set (sessions srv) (JStr sessionId) ?ent\<rparr>"
  show ?thesis
  proof (cases "interact_cmd b")
    case (Reject msg)
    with found checkAuth_pass[OF auth] show ?thesis by (simp add: interact_def)
  next
    case (Throws e)
    with found checkAuth_pass[OF auth] show ?thesis by (simp add: interact_def)
  next
    case (Perform c)
    obtain s1 r where a: "do_cmd eng ?srv1 (page ent) c = (s1, r)" by (cases "do_cmd eng ?srv1 (page ent) c")
    have s1: "sessions s1 = sessions ?srv1" using do_cmd_sessions[of eng ?srv1 "page ent" c] a by simp
    obtain s2 sh where b2: "take_screenshot eng s1 (page ent) = (s2, sh)" by (cases "take_screenshot eng s1 (page ent)")
    have s2: "sessions s2 = sessions ?srv1" using take_screenshot_sessions[of eng s1 "page ent"] b2 s1 by simp
    obtain s3 u where c3: "get_url eng s2 (page ent) = (s3, u)" by (cases "get_url eng s2 (page ent)")
    have s3: "sessions s3 = sessions ?srv1" using get_url_sessions[of eng s2 "page ent"] c3 s2 by simp
    obtain s4 t where d: "get_title eng s3 (page ent) = (s4, t)" by (cases "get_title eng s3 (page ent)")
    have s4: "sessions s4 = sessions ?srv1" using get_title_sessions[of eng s3 "page ent"] d s3 by simp
    show ?thesis
      using found checkAuth_pass[OF auth] Perform a b2 c3 d s1 s2 s3 s4
      by (auto simp add: interact_def Let_def split: option.splits sum.splits)
  qed
qed

lemma run_reuse_refreshes:
  assumes auth: "fst (checkAuth SECRET (authorization req) new_response)"
    and steps: "body_steps req = JArr ss" "0 < length ss" "length ss \<le> 15"
    and given: "truthy (body_sessionId req)"
    and found: "sessions_get (sessions srv) (body_sessionId req) = Some ent"
  shows "sessions (snd (run eng SECRET ev srv req)) =
           sessions_set (sessions srv) (body_sessionId req) (ent\<lparr>lastUsedAt := now ev\<rparr>)"
proof -
  let ?ent = "ent\<lparr>lastUsedAt := now ev\<rparr>"
  let ?srv1 = "srv\<lparr>sessions := sessions_set (sessions srv) (body_sessionId req) ?ent\<rparr>"
  have g: "getOrCreateSession eng ev srv (js_or (body_sessionId req) JNull)
             = (?srv1, Inr (body_sessionId req, ?ent))"
    using given found by (simp add: getOrCreateSession_def js_or_def Let_def)
  have "snd (run eng SECRET ev srv req) =
          st_srv (fst (step_loop eng (is_stream req) (page ?ent) 0 ss (loop_start (is_stream req) ?srv1)))"
    using run_accepted[OF auth steps, of eng ev srv] run_try_resolved[OF g, of "is_stream req" ss] by simp
  then show ?thesis
    using step_loop_sessions[of eng "is_stream req" "page ?ent" 0 ss "loop_start (is_stream req) ?srv1"]
    by (simp add: loop_start_simps)
qed

text \<open>How far the loop gets depends only on where the first \<open>null\<close> item is; the
  validation failures of the dispatch; the id a run resolves.\<close>

lemma step_loop_count:
  "length (results (fst (step_loop eng stream pg i ss st))) =
     length (results st) + length (takeWhile (\<lambda>s. s \<noteq> JNull \<and> s \<noteq> JUndefined) ss)"
proof (induction ss arbitrary: i st)
  case Nil
  show ?case by simp
next
  case (Cons s ss)
  show ?case
  proof (cases "get_field s ''action''")
    case (Inl e)
    then show ?thesis by (simp add: get_field_def split: if_splits)
  next
    case (Inr a)
    obtain srv' payload where ex: "exec_step eng (st_srv st) pg i s (js_or a (JStr ''snapshot'')) = (srv', payload)"
      by (cases "exec_step eng (st_srv st) pg i s (js_or a (JStr ''snapshot''))")
    have ok: "s \<noteq> JNull \<and> s \<noteq> JUndefined"
      using Inr by (simp add: get_field_def split: if_splits)
    show ?thesis
      using Cons.IH[of "Suc i" "emitStep stream payload (st\<lparr>st_srv := srv'\<rparr>)"] Inr ex ok
      by (simp add: emitStep_def)
  qed
qed


lemma resolved_id:
  "getOrCreateSession eng ev srv (js_or rid JNull) = (srv1, Inr (sid, ent)) \<Longrightarrow>
     sid = js_or rid (JStr (randomId ev))"
  by (auto simp add: getOrCreateSession_def js_or_def Let_def
           split: option.splits prod.splits sum.splits if_splits)





lemma takeWhile_reaches:
  assumes "i < length xs" and "\<forall>j\<le>i. P (xs ! j)"
  shows "i < length (takeWhile P xs)"
proof -
  have "Suc i \<le> length (takeWhile P xs)"
    by (rule length_takeWhile_less_P_nth) (use assms in auto)
  then show ?thesis by simp
qed

lemma step_loop_state_after:
  "length (results st) + j < length (results (fst (step_loop eng stream pg i ss st))) \<Longrightarrow>
     st_srv (fst (step_loop eng stream pg i (take (Suc j) ss) st)) =
       fst (exec_step eng (st_srv (fst (step_loop eng stream pg i (take j ss) st))) pg (i + j)
              (ss ! j) (action_of (ss ! j)))"
proof (induction ss arbitrary: i st j)
  case Nil
  then show ?case by simp
next
  case (Cons s ss)
  show ?case
  proof (cases "get_field s ''action''")
    case (Inl e)
    with Cons.prems show ?thesis by simp
  next
    case (Inr a)
    have act: "js_or a (JStr ''snapshot'') = action_of s"
      using Inr by (auto simp add: get_field_def action_of_def split: if_splits)
    obtain srv' payload where ex: "exec_step eng (st_srv st) pg i s (action_of s) = (srv', payload)"
      by (cases "exec_step eng (st_srv st) pg i s (action_of s)")
    let ?next = "emitStep stream payload (st\<lparr>st_srv := srv'\<rparr>)"
    have unfold: "step_loop eng stream pg i (s # xs) st = step_loop eng stream pg (Suc i) xs ?next" for xs
      using Inr act ex by simp
    have rn: "results ?next = results st @ [payload]" by (simp add: emitStep_def)
    show ?thesis
    proof (cases j)
      case 0
      then show ?thesis using unfold[of "[]"] ex by (simp add: emitStep_def)
    next
      case (Suc k)
      have "length (results ?next) + k < length (results (fst (step_loop eng stream pg (Suc i) ss ?next)))"
        using Cons.prems unfold[of ss] rn Suc by simp
      from Cons.IH[OF this] show ?thesis
        using unfold[of "take (Suc k) ss"] unfold[of "take k ss"] Suc by simp
    qed
  qed
qed

lemma handle_unauthorized:
  assumes "s \<noteq> []" and "authenticated req" and "auth_header req \<noteq> Some (''Bearer '' @ s)"
  shows "handle eng (Some s) ev srv req = (res_json 401 (ErrorBody ''Unauthorized'') new_response, srv)"
proof -
  have rej: "checkAuth (Some s) (auth_header req) new_response
               = (False, res_json 401 (ErrorBody ''Unauthorized'') new_response)"
    using assms by (simp add: checkAuth_reject)
  show ?thesis
  proof (cases req)
    case GetHealth
    with assms show ?thesis by simp
  next
    case (DeleteSession a sid)
    with rej show ?thesis by (simp add: delete_session_def)
  next
    case (PostRun rq)
    with rej show ?thesis by (simp add: run_def)
  next
    case (GetScreenshot a sid)
    with rej show ?thesis by (simp add: get_screenshot_def)
  next
    case (GetInfo a sid)
    with rej show ?thesis by (simp add: get_info_def)
  next
    case (PostInteract a sid b)
    with rej show ?thesis by (simp add: interact_def)
  qed
qed

section \<open>The claims\<close>



text \<open>
  C1 (as amended). For a run whose steps field is an array of \<open>N\<close> items, \<open>1 \<le> N \<le> 15\<close>,
  none of them \<open>null\<close>, and whose session is resolved (found, or launched
  successfully), the aggregate holds exactly \<open>N\<close> step results, with \<open>stepIndex\<close>
  \<open>0, ..., N - 1\<close> in input order, result \<open>i\<close> carrying the action of step \<open>i\<close>,
  whether the steps succeeded or failed.
\<close>

theorem run_one_result_per_step:
  assumes auth: "fst (checkAuth SECRET (authorization req) new_response)"
    and steps: "body_steps req = JArr ss" "1 \<le> length ss" "length ss \<le> 15"
    and nonnull: "\<forall>s\<in>set ss. s \<noteq> JNull \<and> s \<noteq> JUndefined"
    and launch: "snd (getOrCreateSession eng ev srv (js_or (body_sessionId req) JNull)) = Inr x"
  shows "length (reply_steps (fst (run eng SECRET ev srv req))) = length ss \<and>
         map stepIndex (reply_steps (fst (run eng SECRET ev srv req))) = [0..<length ss] \<and>
         map action (reply_steps (fst (run eng SECRET ev srv req))) = map action_of ss"
proof -
  let ?stream = "is_stream req"
  obtain srv1 where g: "getOrCreateSession eng ev srv (js_or (body_sessionId req) JNull) = (srv1, Inr x)"
    using launch by (cases "getOrCreateSession eng ev srv (js_or (body_sessionId req) JNull)") simp
  obtain sid ent where x: "x = (sid, ent)" by (cases x)
  let ?start = "loop_start ?stream srv1"
  let ?fin = "fst (step_loop eng ?stream (page ent) 0 ss ?start)"
  have none: "snd (step_loop eng ?stream (page ent) 0 ss ?start) = None"
    using nonnull by (rule step_loop_no_escape)
  have out: "run_try eng ev srv ?stream ss (body_sessionId req) = (?fin, None, sid)"
    using run_try_resolved[OF g[unfolded x], of ?stream ss] none by simp
  have pos: "0 < length ss" using steps(2) by (cases ss) simp_all
  have reply: "fst (run eng SECRET ev srv req) = run_respond ?stream (?fin, None, sid)"
    using run_accepted[OF auth steps(1) pos steps(3), of eng ev srv] out by simp
  have nobody: "body (st_res ?fin) = None"
    using step_loop_res[of eng ?stream "page ent" 0 ss ?start] by (simp add: loop_start_simps)
  have rs: "reply_steps (fst (run eng SECRET ev srv req)) = results ?fin"
    using reply reply_of_success[OF nobody] by (simp add: reply_steps_def)
  have len: "length (results ?fin) = length ss"
    using step_loop_length[OF none] by (simp add: loop_start_simps)
  have idx: "map stepIndex (results ?fin) = [0..<length ss]"
    and acts: "map action (results ?fin) = map action_of ss"
    using step_loop_indices[OF none] by (simp_all add: loop_start_simps)
  show ?thesis unfolding rs using len idx acts by simp
qed

theorem run_one_result_per_step_witness:
  "map stepIndex (reply_steps (fst (run demo_engine None demo_env empty_server (plain_run example_steps)))) = [0, 1] \<and>
   map action (reply_steps (fst (run demo_engine None demo_env empty_server (plain_run example_steps))))
     = [JStr ''navigate'', JStr ''click'']"
proof -
  let ?req = "plain_run example_steps"
  let ?srv1 = "\<lparr>sessions = [(JStr ''sess_x_1'', \<lparr>browser = 0, bcontext = 0, page = 0, lastUsedAt = 1000\<rparr>)],
                world = 3, calls = [ELaunch, ENewContext 0, ENewPage 0]\<rparr> :: (nat, nat) server"
  let ?ent = "\<lparr>browser = 0, bcontext = 0, page = 0, lastUsedAt = 1000\<rparr> :: nat entry"
  have auth: "fst (checkAuth None (authorization ?req) new_response)"
    by (simp add: checkAuth_def)
  have steps: "body_steps ?req = JArr example_steps" "1 \<le> length example_steps" "length example_steps \<le> 15"
    by (simp_all add: plain_run_def example_steps_def)
  have nonnull: "\<forall>s\<in>set example_steps. s \<noteq> JNull \<and> s \<noteq> JUndefined"
    by (simp add: example_steps_def)
  have launch: "snd (getOrCreateSession demo_engine demo_env empty_server (js_or (body_sessionId ?req) JNull))
                = Inr (JStr ''sess_x_1'', ?ent)"
    by (simp add: engine_eval handler_eval)
  have two: "[0..<length example_steps] = [0, 1]" by (simp add: example_steps_def upt_rec)
  have acts: "map action_of example_steps = [JStr ''navigate'', JStr ''click'']"
    by (simp add: example_steps_def action_of_def js_prop_def js_or_def)
  from run_one_result_per_step[OF auth steps nonnull launch]
  show ?thesis unfolding two acts by blast
qed

text \<open>
  C1 as stated fails on a \<open>null\<close> item: \<open>{"steps":[null]}\<close> passes the length check and
  the session is launched, but reading \<open>step.action\<close> throws outside the inner \<open>try\<close>;
  the run answers 500 with no step result at all.
\<close>

theorem run_null_step_counterexample:
  "body_steps (plain_run [JNull]) = JArr [JNull] \<and> length [JNull] = 1 \<and>
   snd (getOrCreateSession demo_engine demo_env empty_server (js_or (body_sessionId (plain_run [JNull])) JNull))
     = Inr (JStr ''sess_x_1'', \<lparr>browser = 0, bcontext = 0, page = 0, lastUsedAt = 1000\<rparr>) \<and>
   statusCode (fst (run demo_engine None demo_env empty_server (plain_run [JNull]))) = 500 \<and>
   reply_steps (fst (run demo_engine None demo_env empty_server (plain_run [JNull]))) = []"
  by (simp add: engine_eval handler_eval)

text \<open>
  C5. A run whose steps field is not an array of 1 to 15 items is rejected with
  status 400 (401 when it does not even pass the auth gate, which comes first),
  nothing is written to a stream, and the server state is left as it was: no
  session is looked up or created and the engine is not called.
\<close>

theorem run_rejects_bad_steps:
  assumes "\<not> steps_ok (body_steps req)"
  shows "snd (run eng SECRET ev srv req) = srv \<and>
         written (fst (run eng SECRET ev srv req)) = [] \<and>
         (\<exists>msg. body (fst (run eng SECRET ev srv req)) = Some (ErrorBody msg)) \<and>
         statusCode (fst (run eng SECRET ev srv req)) =
           (if fst (checkAuth SECRET (authorization req) new_response) then 400 else 401)"
proof (cases "fst (checkAuth SECRET (authorization req) new_response)")
  case True
  from checkAuth_pass[OF True] assms show ?thesis
    by (cases "body_steps req")
       (auto simp add: run_def steps_ok_def res_json_def new_response_def Let_def Suc_le_eq)
next
  case False
  from checkAuth_fail[OF False] show ?thesis
    by (simp add: run_def res_json_def new_response_def)
qed

theorem run_rejects_bad_steps_witness:
  "\<not> steps_ok (body_steps (plain_run [])) \<and>
   snd (run demo_engine None demo_env one_session_server (plain_run [])) = one_session_server \<and>
   statusCode (fst (run demo_engine None demo_env one_session_server (plain_run []))) = 400"
proof -
  have h: "\<not> steps_ok (body_steps (plain_run []))"
    by (simp add: steps_ok_def plain_run_def)
  have a: "fst (checkAuth None (authorization (plain_run [])) new_response)"
    by (simp add: checkAuth_def)
  from run_rejects_bad_steps[OF h, of demo_engine None demo_env one_session_server] a h
  show ?thesis by simp
qed

text \<open>
  C6 (as amended). With a secret \<open>s\<close> configured, a request to any authenticated
  endpoint whose body the JSON body parser accepts and whose \<open>Authorization\<close>
  header is absent or differs from \<open>Bearer s\<close> is answered 401 \<open>Unauthorized\<close>. Such
  a request leaves the server state (registry, engine world, engine calls)
  unchanged whatever the parser makes of its body; when the parser rejects the
  body the answer is the parser's status instead. The header \<open>Bearer s\<close> itself
  passes the gate, and with no secret configured every request passes it.
\<close>

theorem unauthorized_requests_rejected_first:
  "(s \<noteq> [] \<and> authenticated req \<and> auth_header req \<noteq> Some (''Bearer '' @ s) \<longrightarrow>
      app eng (Some s) ev srv BodyParsed req = (res_json 401 (ErrorBody ''Unauthorized'') new_response, srv) \<and>
      snd (app eng (Some s) ev srv parsed req) = srv \<and>
      statusCode (fst (app eng (Some s) ev srv parsed req)) =
        (case parser_error parsed of Some code \<Rightarrow> code | None \<Rightarrow> 401)) \<and>
   checkAuth (Some s) (Some (''Bearer '' @ s)) r = (True, r) \<and>
   checkAuth None auth r = (True, r)"
proof (intro conjI impI)
  assume h: "s \<noteq> [] \<and> authenticated req \<and> auth_header req \<noteq> Some (''Bearer '' @ s)"
  then have un: "handle eng (Some s) ev srv req = (res_json 401 (ErrorBody ''Unauthorized'') new_response, srv)"
    by (simp add: handle_unauthorized)
  show "app eng (Some s) ev srv BodyParsed req = (res_json 401 (ErrorBody ''Unauthorized'') new_response, srv)"
    using un by (simp add: app_def)
  show "snd (app eng (Some s) ev srv parsed req) = srv"
    using un by (cases parsed) (simp_all add: app_def)
  show "statusCode (fst (app eng (Some s) ev srv parsed req)) =
          (case parser_error parsed of Some code \<Rightarrow> code | None \<Rightarrow> 401)"
    using un by (cases parsed) (simp_all add: app_def res_json_def res_error_page_def)
next
  show "checkAuth (Some s) (Some (''Bearer '' @ s)) r = (True, r)" by (rule checkAuth_accept)
next
  show "checkAuth None auth r = (True, r)" by (simp add: checkAuth_def)
qed

theorem unauthorized_requests_rejected_first_witness:
  "app demo_engine (Some ''hunter2'') demo_env one_session_server BodyParsed
       (DeleteSession (Some ''Bearer wrong'') ''s1'')
     = (res_json 401 (ErrorBody ''Unauthorized'') new_response, one_session_server) \<and>
   app demo_engine (Some ''hunter2'') demo_env one_session_server BodyParsed (PostRun (plain_run example_steps))
     = (res_json 401 (ErrorBody ''Unauthorized'') new_response, one_session_server)"
proof -
  have a: "''hunter2'' \<noteq> [] \<and> authenticated (DeleteSession (Some ''Bearer wrong'') ''s1'') \<and>
           auth_header (DeleteSession (Some ''Bearer wrong'') ''s1'') \<noteq> Some (''Bearer '' @ ''hunter2'')"
    by simp
  have b: "''hunter2'' \<noteq> [] \<and> authenticated (PostRun (plain_run example_steps)) \<and>
           auth_header (PostRun (plain_run example_steps)) \<noteq> Some (''Bearer '' @ ''hunter2'')"
    by (simp add: plain_run_def)
  from unauthorized_requests_rejected_first[of "''hunter2''" "DeleteSession (Some ''Bearer wrong'') ''s1''"
         demo_engine demo_env one_session_server] a
  have 1: "app demo_engine (Some ''hunter2'') demo_env one_session_server BodyParsed
             (DeleteSession (Some ''Bearer wrong'') ''s1'')
     = (res_json 401 (ErrorBody ''Unauthorized'') new_response, one_session_server)" by blast
  from unauthorized_requests_rejected_first[of "''hunter2''" "PostRun (plain_run example_steps)"
         demo_engine demo_env one_session_server] b
  have 2: "app demo_engine (Some ''hunter2'') demo_env one_session_server BodyParsed
             (PostRun (plain_run example_steps))
     = (res_json 401 (ErrorBody ''Unauthorized'') new_response, one_session_server)" by blast
  from 1 2 show ?thesis by (rule conjI)
qed

text \<open>
  C6 as stated promises an unauthorized error for every request without the
  credential. The body parser runs before the auth gate: a request with no
  \<open>Authorization\<close> header and a malformed JSON body is answered 400 with the error
  page, and \<open>checkAuth\<close> is never reached.
\<close>

theorem unauthorized_malformed_body_counterexample:
  "authenticated (PostRun (plain_run example_steps)) \<and>
   auth_header (PostRun (plain_run example_steps)) = None \<and>
   app demo_engine (Some ''hunter2'') demo_env one_session_server BodyMalformed (PostRun (plain_run example_steps))
     = (res_error_page 400 new_response, one_session_server) \<and>
   statusCode (fst (app demo_engine (Some ''hunter2'') demo_env one_session_server BodyMalformed
                      (PostRun (plain_run example_steps)))) = 400 \<and>
   body (fst (app demo_engine (Some ''hunter2'') demo_env one_session_server BodyMalformed
                (PostRun (plain_run example_steps)))) = Some ErrorPage"
  by (simp add: app_def plain_run_def res_error_page_def new_response_def)

text \<open>
  C9. Closing is idempotent: closing an id that is not in the registry changes
  nothing; \<open>DELETE /session/:id\<close> for such an id, once past the auth gate, answers
  200 with the success body and changes nothing; and closing an id twice leaves
  the server in the same state as closing it once.
\<close>

theorem close_is_idempotent:
  "(sessions_get (sessions srv) sid = None \<longrightarrow> closeSession eng srv sid = srv) \<and>
   (sessions_get (sessions srv) (JStr sessionId) = None \<and> sessionId \<noteq> [] \<and>
      fst (checkAuth SECRET auth new_response) \<longrightarrow>
      delete_session eng SECRET srv auth sessionId = (res_json 200 ClosedBody new_response, srv)) \<and>
   closeSession eng (closeSession eng srv sid) sid = closeSession eng srv sid"
proof (intro conjI impI)
  assume "sessions_get (sessions srv) sid = None"
  then show "closeSession eng srv sid = srv" by (simp add: closeSession_def)
next
  assume h: "sessions_get (sessions srv) (JStr sessionId) = None \<and> sessionId \<noteq> [] \<and>
      fst (checkAuth SECRET auth new_response)"
  then have "checkAuth SECRET auth new_response = (True, new_response)"
    by (simp add: checkAuth_pass)
  with h show "delete_session eng SECRET srv auth sessionId = (res_json 200 ClosedBody new_response, srv)"
    by (simp add: delete_session_def closeSession_def)
next
  show "closeSession eng (closeSession eng srv sid) sid = closeSession eng srv sid"
  proof (cases "sessions_get (sessions srv) sid")
    case None
    then show ?thesis by (simp add: closeSession_def)
  next
    case (Some ent)
    then have "sessions_get (sessions (closeSession eng srv sid)) sid = None"
      by (simp add: closeSession_def sessions_get_delete)
    then show ?thesis by (simp add: closeSession_def[of eng "closeSession eng srv sid"])
  qed
qed

theorem close_is_idempotent_witness:
  "delete_session demo_engine None one_session_server None ''abc''
     = (res_json 200 ClosedBody new_response, one_session_server) \<and>
   sessions (closeSession demo_engine one_session_server (JStr ''s1'')) = [] \<and>
   closeSession demo_engine (closeSession demo_engine one_session_server (JStr ''s1'')) (JStr ''s1'')
     = closeSession demo_engine one_session_server (JStr ''s1'')"
proof -
  have h: "sessions_get (sessions one_session_server) (JStr ''abc'') = None \<and> ''abc'' \<noteq> [] \<and>
      fst (checkAuth None None new_response)"
    by (simp add: sessions_get_def one_session_server_def checkAuth_def)
  have c: "sessions (closeSession demo_engine one_session_server (JStr ''s1'')) = []"
    by (simp add: closeSession_def sessions_get_def sessions_delete_def one_session_server_def AList.delete_eq)
  from close_is_idempotent[of one_session_server "JStr ''s1''" demo_engine "''abc''" None None] h c
  show ?thesis by blast
qed

text \<open>
  C7 (as amended). In streaming mode, a run that passes the auth gate and the steps
  check writes the step messages of the collected results in order, their
  \<open>stepIndex\<close> being \<open>0, 1, 2, ...\<close>, followed by exactly one done message, which is
  the last message and after which the stream is ended. This holds when the loop
  completes and when an error reaches the outer \<open>catch\<close>. The done message carries
  the success flag, the error text if any, the collected results and the session
  id: when a session was resolved it is the id \<open>getOrCreateSession\<close> returned, the
  requested id if one was given and the fresh random id otherwise; it is
  undefined exactly when resolving the session failed.
\<close>

theorem stream_steps_in_order_done_last:
  assumes stream: "is_stream req"
    and auth: "fst (checkAuth SECRET (authorization req) new_response)"
    and steps: "body_steps req = JArr ss" "0 < length ss" "length ss \<le> 15"
  shows "case run_try eng ev srv True ss (body_sessionId req) of (st, esc, sid) \<Rightarrow>
           written (fst (run eng SECRET ev srv req)) =
             map StepEvent (results st) @
               [DoneEvent (esc = None) (map_option err_text esc) (results st) sid] \<and>
           map stepIndex (results st) = [0..<length (results st)] \<and>
           filter is_done (written (fst (run eng SECRET ev srv req))) =
               [DoneEvent (esc = None) (map_option err_text esc) (results st) sid] \<and>
           is_done (last (written (fst (run eng SECRET ev srv req)))) \<and>
           ended (fst (run eng SECRET ev srv req)) \<and>
           (sid = JUndefined) =
             isl (snd (getOrCreateSession eng ev srv (js_or (body_sessionId req) JNull))) \<and>
           (\<forall>srv1 sid' ent.
              getOrCreateSession eng ev srv (js_or (body_sessionId req) JNull) = (srv1, Inr (sid', ent)) \<longrightarrow>
              sid = sid' \<and> sid = js_or (body_sessionId req) (JStr (randomId ev)))"
proof -
  obtain st esc sid where out: "run_try eng ev srv True ss (body_sessionId req) = (st, esc, sid)"
    by (cases "run_try eng ev srv True ss (body_sessionId req)")
  have reply: "fst (run eng SECRET ev srv req) = run_respond True (st, esc, sid)"
    using run_accepted[OF auth steps, of eng ev srv] stream out by simp
  have inv: "headersSent (st_res st)" "written (st_res st) = map StepEvent (results st)"
    "map stepIndex (results st) = [0..<length (results st)]"
    using run_try_stream_state[of eng ev srv ss "body_sessionId req"] out by simp_all
  have w: "written (fst (run eng SECRET ev srv req)) =
             map StepEvent (results st) @ [DoneEvent (esc = None) (map_option err_text esc) (results st) sid]"
    and e: "ended (fst (run eng SECRET ev srv req))"
    using run_respond_stream[OF inv(1), of esc sid] inv(2) reply by simp_all
  have i: "(sid = JUndefined) = isl (snd (getOrCreateSession eng ev srv (js_or (body_sessionId req) JNull)))"
    using run_try_sid[of eng ev srv True ss "body_sessionId req"] out by simp
  have r: "sid = sid' \<and> sid = js_or (body_sessionId req) (JStr (randomId ev))"
    if g: "getOrCreateSession eng ev srv (js_or (body_sessionId req) JNull) = (srv1, Inr (sid', ent))"
    for srv1 sid' ent
    using run_try_resolved[OF g, of True ss] out resolved_id[OF g] by simp
  then have r': "\<forall>srv1 sid' ent.
              getOrCreateSession eng ev srv (js_or (body_sessionId req) JNull) = (srv1, Inr (sid', ent)) \<longrightarrow>
              sid = sid' \<and> sid = js_or (body_sessionId req) (JStr (randomId ev))"
    by blast
  have f: "filter is_done (written (fst (run eng SECRET ev srv req))) =
             [DoneEvent (esc = None) (map_option err_text esc) (results st) sid]"
    and l: "is_done (last (written (fst (run eng SECRET ev srv req))))"
    using w by (simp_all add: filter_done_steps)
  show ?thesis
    unfolding out prod.case using w inv(3) f l e i r' by (intro conjI)
qed

theorem stream_steps_in_order_done_last_witness:
  "written (fst (run demo_engine None demo_env empty_server (stream_run example_steps))) =
     [StepEvent \<lparr>stepIndex = 0, action = JStr ''navigate'', screenshotBase64 = Some ''iVBORw0KGgo='',
                 success = True, error = None\<rparr>,
      StepEvent \<lparr>stepIndex = 1, action = JStr ''click'', screenshotBase64 = Some ''iVBORw0KGgo='',
                 success = False, error = Some ''Timeout 10000ms exceeded''\<rparr>,
      DoneEvent True None
        [\<lparr>stepIndex = 0, action = JStr ''navigate'', screenshotBase64 = Some ''iVBORw0KGgo='',
           success = True, error = None\<rparr>,
         \<lparr>stepIndex = 1, action = JStr ''click'', screenshotBase64 = Some ''iVBORw0KGgo='',
           success = False, error = Some ''Timeout 10000ms exceeded''\<rparr>]
        (JStr ''sess_x_1'')] \<and>
   filter is_done (written (fst (run demo_engine None demo_env empty_server
                                   (stream_run [snapshot_step, JNull])))) =
     [DoneEvent False
        (Some (''Cannot read properties of null (reading '' @ [CHR 0x27] @ ''action'' @ [CHR 0x27] @ '')''))
        [\<lparr>stepIndex = 0, action = JStr ''snapshot'', screenshotBase64 = Some ''iVBORw0KGgo='',
           success = True, error = None\<rparr>]
        (JStr ''sess_x_1'')] \<and>
   written (fst (run demo_engine None demo_env one_session_server reuse_run)) =
     [StepEvent \<lparr>stepIndex = 0, action = JStr ''snapshot'', screenshotBase64 = Some ''iVBORw0KGgo='',
                 success = True, error = None\<rparr>,
      DoneEvent True None
        [\<lparr>stepIndex = 0, action = JStr ''snapshot'', screenshotBase64 = Some ''iVBORw0KGgo='',
           success = True, error = None\<rparr>]
        (JStr ''s1'')]"
proof -
  let ?req = "stream_run example_steps"
  let ?bad = "stream_run [snapshot_step, JNull]"
  let ?rt1 = "run_try demo_engine demo_env empty_server True example_steps JUndefined"
  let ?rt2 = "run_try demo_engine demo_env empty_server True [snapshot_step, JNull] JUndefined"
  let ?rt3 = "run_try demo_engine demo_env one_session_server True [snapshot_step] (JStr ''s1'')"
  have stream: "is_stream ?req" "is_stream ?bad" "is_stream reuse_run"
    by (simp_all add: is_stream_def stream_run_def reuse_run_def)
  have auth: "fst (checkAuth None (authorization ?req) new_response)"
    "fst (checkAuth None (authorization ?bad) new_response)"
    "fst (checkAuth None (authorization reuse_run) new_response)"
    by (simp_all add: checkAuth_def)
  have steps: "body_steps ?req = JArr example_steps" "0 < length example_steps" "length example_steps \<le> 15"
    by (simp_all add: stream_run_def example_steps_def)
  have steps': "body_steps ?bad = JArr [snapshot_step, JNull]" "0 < length [snapshot_step, JNull]"
    "length [snapshot_step, JNull] \<le> 15"
    by (simp_all add: stream_run_def)
  have steps'': "body_steps reuse_run = JArr [snapshot_step]" "0 < length [snapshot_step]"
    "length [snapshot_step] \<le> 15"
    by (simp_all add: reuse_run_def)
  have sid: "body_sessionId ?req = JUndefined" "body_sessionId ?bad = JUndefined"
    "body_sessionId reuse_run = JStr ''s1''"
    by (simp_all add: stream_run_def reuse_run_def)
  have ok: "results (fst ?rt1) =
        [\<lparr>stepIndex = 0, action = JStr ''navigate'', screenshotBase64 = Some ''iVBORw0KGgo='',
           success = True, error = None\<rparr>,
         \<lparr>stepIndex = 1, action = JStr ''click'', screenshotBase64 = Some ''iVBORw0KGgo='',
           success = False, error = Some ''Timeout 10000ms exceeded''\<rparr>]"
      "snd ?rt1 = (None, JStr ''sess_x_1'')"
    by (simp_all add: engine_eval handler_eval example_steps_def)
  have bad: "results (fst ?rt2) =
        [\<lparr>stepIndex = 0, action = JStr ''snapshot'', screenshotBase64 = Some ''iVBORw0KGgo='',
           success = True, error = None\<rparr>]"
      "snd ?rt2
         = (Some (Exn TypeErrorN
                   (''Cannot read properties of null (reading '' @ [CHR 0x27] @ ''action'' @ [CHR 0x27] @ '')'')),
            JStr ''sess_x_1'')"
    by (simp_all add: engine_eval handler_eval snapshot_step_def)
  have reuse: "results (fst ?rt3) =
        [\<lparr>stepIndex = 0, action = JStr ''snapshot'', screenshotBase64 = Some ''iVBORw0KGgo='',
           success = True, error = None\<rparr>]"
      "fst (snd ?rt3) = None"
    by (simp_all add: engine_eval handler_eval snapshot_step_def one_session_server_def)
  have found: "getOrCreateSession demo_engine demo_env one_session_server (js_or (JStr ''s1'') JNull) =
      (one_session_server\<lparr>sessions := [(JStr ''s1'', \<lparr>browser = 0, bcontext = 0, page = 0, lastUsedAt = 1000\<rparr>)]\<rparr>,
       Inr (JStr ''s1'', \<lparr>browser = 0, bcontext = 0, page = 0, lastUsedAt = 1000\<rparr>))"
    by (simp add: engine_eval handler_eval one_session_server_def)
  note m1 = stream_steps_in_order_done_last[OF stream(1) auth(1) steps, of demo_engine demo_env empty_server,
              unfolded case_prod_beta sid]
  note m2 = stream_steps_in_order_done_last[OF stream(2) auth(2) steps', of demo_engine demo_env empty_server,
              unfolded case_prod_beta sid]
  note m3 = stream_steps_in_order_done_last[OF stream(3) auth(3) steps'', of demo_engine demo_env one_session_server,
              unfolded case_prod_beta sid]
  have 1: "written (fst (run demo_engine None demo_env empty_server ?req)) =
      map StepEvent (results (fst ?rt1)) @ [DoneEvent True None (results (fst ?rt1)) (JStr ''sess_x_1'')]"
    using m1[THEN conjunct1] ok(2) by simp
  have 2: "filter is_done (written (fst (run demo_engine None demo_env empty_server ?bad))) =
     [DoneEvent False
        (Some (''Cannot read properties of null (reading '' @ [CHR 0x27] @ ''action'' @ [CHR 0x27] @ '')''))
        (results (fst ?rt2)) (JStr ''sess_x_1'')]"
    using m2[THEN conjunct2, THEN conjunct2, THEN conjunct1] bad(2) by simp
  have id3: "snd (snd ?rt3) = JStr ''s1''"
    using m3[THEN conjunct2, THEN conjunct2, THEN conjunct2, THEN conjunct2, THEN conjunct2, THEN conjunct2,
             rule_format, OF found]
    by simp
  have 3: "written (fst (run demo_engine None demo_env one_session_server reuse_run)) =
      map StepEvent (results (fst ?rt3)) @ [DoneEvent True None (results (fst ?rt3)) (JStr ''s1'')]"
    using m3[THEN conjunct1] reuse(2) id3 by simp
  from 1 2 3 show ?thesis unfolding ok(1) bad(1) reuse(1) by simp
qed

text \<open>
  C7 as stated lets the done message carry the session id on the error path too.
  When the browser cannot be launched no session is resolved: the stream is the
  single done message, and its session id is undefined.
\<close>

theorem stream_done_without_session_counterexample:
  "is_stream (stream_run example_steps) \<and>
   written (fst (run no_browser_engine None demo_env empty_server (stream_run example_steps))) =
     [DoneEvent False (Some ''Failed to launch browser'') [] JUndefined] \<and>
   sessions (snd (run no_browser_engine None demo_env empty_server (stream_run example_steps))) = []"
  by (simp add: engine_eval handler_eval example_steps_def)

text \<open>
  C8. For two runs that differ only in the delivery mode, the step results of the
  buffered aggregate are the step events written to the stream, in the same order
  (index, action, screenshot, success and error alike), and both leave the server
  in the same state.
\<close>

theorem buffered_and_streamed_steps_agree:
  assumes buffered: "\<not> is_stream rb" and streamed: "is_stream rs"
    and same: "authorization rb = authorization rs" "body_steps rb = body_steps rs"
              "body_sessionId rb = body_sessionId rs"
  shows "reply_steps (fst (run eng SECRET ev srv rb)) = step_events (written (fst (run eng SECRET ev srv rs))) \<and>
         snd (run eng SECRET ev srv rb) = snd (run eng SECRET ev srv rs)"
proof (cases "fst (checkAuth SECRET (authorization rs) new_response) \<and> steps_ok (body_steps rs)")
  case False
  then have "\<not> (fst (checkAuth SECRET (authorization rb) new_response) \<and> steps_ok (body_steps rb))"
    using same by simp
  from run_rejected[OF this, of eng ev srv] run_rejected[OF False, of eng ev srv]
  show ?thesis by simp
next
  case True
  then obtain ss where ss: "body_steps rs = JArr ss" "0 < length ss" "length ss \<le> 15"
    using steps_ok_iff by blast
  have auth_s: "fst (checkAuth SECRET (authorization rs) new_response)" using True by simp
  have auth_b: "fst (checkAuth SECRET (authorization rb) new_response)" using True same by simp
  have ss_b: "body_steps rb = JArr ss" using ss same by simp
  let ?ob = "run_try eng ev srv False ss (body_sessionId rs)"
  let ?os = "run_try eng ev srv True ss (body_sessionId rs)"
  have rb: "run eng SECRET ev srv rb = (run_respond False ?ob, st_srv (fst ?ob))"
    using run_accepted[OF auth_b ss_b ss(2,3), of eng ev srv] buffered same by simp
  have rs: "run eng SECRET ev srv rs = (run_respond True ?os, st_srv (fst ?os))"
    using run_accepted[OF auth_s ss, of eng ev srv] streamed by simp
  note ind = run_try_stream_independent[of eng ev srv False ss "body_sessionId rs" True]
  obtain stb escb sidb where ob: "?ob = (stb, escb, sidb)" by (cases ?ob)
  obtain sts escs sids where os: "?os = (sts, escs, sids)" by (cases ?os)
  have steps_b: "reply_steps (run_respond False ?ob) = results stb"
    unfolding ob using run_respond_buffered[of stb escb sidb]
    by (simp add: reply_steps_def reply_payload_def)
  have inv: "headersSent (st_res sts)" "written (st_res sts) = map StepEvent (results sts)"
    using run_try_stream_state[of eng ev srv ss "body_sessionId rs"] os by simp_all
  have steps_s: "step_events (written (run_respond True ?os)) = results sts"
    unfolding os using run_respond_stream[OF inv(1), of escs sids] inv(2)
    by (simp add: step_events_steps)
  show ?thesis
    using rb rs steps_b steps_s ind ob os by simp
qed

theorem buffered_and_streamed_steps_agree_witness:
  "reply_steps (fst (run demo_engine None demo_env empty_server (plain_run example_steps))) =
     step_events (written (fst (run demo_engine None demo_env empty_server (stream_run example_steps)))) \<and>
   length (step_events (written (fst (run demo_engine None demo_env empty_server (stream_run example_steps))))) = 2"
proof -
  have h: "\<not> is_stream (plain_run example_steps)" "is_stream (stream_run example_steps)"
    "authorization (plain_run example_steps) = authorization (stream_run example_steps)"
    "body_steps (plain_run example_steps) = body_steps (stream_run example_steps)"
    "body_sessionId (plain_run example_steps) = body_sessionId (stream_run example_steps)"
    by (simp_all add: is_stream_def plain_run_def stream_run_def)
  have n: "length (step_events (written (fst (run demo_engine None demo_env empty_server (stream_run example_steps))))) = 2"
    by (simp add: engine_eval handler_eval example_steps_def)
  from buffered_and_streamed_steps_agree[OF h, of demo_engine None demo_env empty_server] n
  show ?thesis by blast
qed

text \<open>
  C10 (as amended). In a run that has resolved its session, take a step that is
  not \<open>null\<close>, with no \<open>null\<close> item before it, whose action is absent or is anything
  but one of the strings \<open>navigate\<close>, \<open>wait\<close>, \<open>click\<close> and \<open>fill\<close>. The step is not
  rejected: the run's aggregate has a result for it, and that result and the
  server state after the step are those of a snapshot step executed in its place,
  the result differing only in the action it reports; with the action absent it
  is the snapshot's result itself. Its \<open>success\<close> is \<open>True\<close> exactly when the
  screenshot capture does not throw.
\<close>

theorem unlisted_action_runs_as_snapshot:
  assumes auth: "fst (checkAuth SECRET (authorization req) new_response)"
    and steps: "body_steps req = JArr ss" "0 < length ss" "length ss \<le> 15"
    and sess: "getOrCreateSession eng ev srv (js_or (body_sessionId req) JNull) = (srv1, Inr (sid, ent))"
    and i: "i < length ss"
    and reached: "\<forall>j\<le>i. ss ! j \<noteq> JNull \<and> ss ! j \<noteq> JUndefined"
    and unlisted: "js_prop (ss ! i) ''action'' \<notin> set [JStr ''navigate'', JStr ''wait'', JStr ''click'', JStr ''fill'']"
    and w: "w = st_srv (state_before eng (is_stream req) (page ent) ss (loop_start (is_stream req) srv1) i)"
  shows "i < length (reply_steps (fst (run eng SECRET ev srv req))) \<and>
         reply_steps (fst (run eng SECRET ev srv req)) ! i =
           (snd (exec_step eng w (page ent) i snapshot_step (JStr ''snapshot'')))
             \<lparr>action := js_or (js_prop (ss ! i) ''action'') (JStr ''snapshot'')\<rparr> \<and>
         (js_prop (ss ! i) ''action'' = JUndefined \<longrightarrow>
            reply_steps (fst (run eng SECRET ev srv req)) ! i =
              snd (exec_step eng w (page ent) i snapshot_step (JStr ''snapshot''))) \<and>
         success (reply_steps (fst (run eng SECRET ev srv req)) ! i) =
           (case snd (take_screenshot eng w (page ent)) of Inr buf \<Rightarrow> True | Inl e \<Rightarrow> False) \<and>
         st_srv (state_before eng (is_stream req) (page ent) ss (loop_start (is_stream req) srv1) (Suc i)) =
           fst (exec_step eng w (page ent) i snapshot_step (JStr ''snapshot''))"
proof -
  let ?stream = "is_stream req"
  let ?start = "loop_start ?stream srv1"
  let ?fin = "fst (step_loop eng ?stream (page ent) 0 ss ?start)"
  let ?esc = "snd (step_loop eng ?stream (page ent) 0 ss ?start)"
  let ?r = "fst (run eng SECRET ev srv req)"
  let ?step = "ss ! i"
  have out: "run_try eng ev srv ?stream ss (body_sessionId req) = (?fin, ?esc, sid)"
    using run_try_resolved[OF sess, of ?stream ss] by simp
  have reply: "?r = run_respond ?stream (?fin, ?esc, sid)"
    using run_accepted[OF auth steps, of eng ev srv] out by simp
  have nobody: "body (st_res ?fin) = None"
    using step_loop_res[of eng ?stream "page ent" 0 ss ?start] by (simp add: loop_start_simps)
  have headers: "headersSent (st_res ?fin) = ?stream"
    using step_loop_headers[of eng ?stream "page ent" 0 ss srv1] by simp
  have rs: "reply_steps ?r = results ?fin"
    using reply reply_of_respond[OF nobody headers] by (simp add: reply_steps_def)
  have "length (results ?fin) = length (takeWhile (\<lambda>s. s \<noteq> JNull \<and> s \<noteq> JUndefined) ss)"
    using step_loop_count[of eng ?stream "page ent" 0 ss ?start] by (simp add: loop_start_simps)
  then have there: "i < length (results ?fin)"
    using takeWhile_reaches[OF i, of "\<lambda>s. s \<noteq> JNull \<and> s \<noteq> JUndefined"] reached by simp
  then have pos: "length (results ?start) + i < length (results ?fin)"
    by (simp add: loop_start_simps)
  have nth: "results ?fin ! i = snd (exec_step eng w (page ent) i ?step (action_of ?step))"
    using step_loop_nth_from[OF pos] by (simp add: loop_start_simps state_before_def w)
  have after: "st_srv (state_before eng ?stream (page ent) ss ?start (Suc i)) =
                 fst (exec_step eng w (page ent) i ?step (action_of ?step))"
    using step_loop_state_after[OF pos] by (simp add: state_before_def w)
  have f: "step_action eng w (page ent) ?step (action_of ?step) = (w, None)"
    using unlisted by (rule unlisted_falls_through)
  have s: "step_action eng w (page ent) snapshot_step (JStr ''snapshot'') = (w, None)"
    by (simp add: step_action_def)
  note a = exec_step_fall_through[OF f, of i] and b = exec_step_fall_through[OF s, of i]
  have same: "snd (exec_step eng w (page ent) i ?step (action_of ?step)) =
                (snd (exec_step eng w (page ent) i snapshot_step (JStr ''snapshot'')))
                  \<lparr>action := action_of ?step\<rparr>"
    and state: "fst (exec_step eng w (page ent) i ?step (action_of ?step)) =
                  fst (exec_step eng w (page ent) i snapshot_step (JStr ''snapshot''))"
    and succ: "success (snd (exec_step eng w (page ent) i ?step (action_of ?step))) =
                 (case snd (take_screenshot eng w (page ent)) of Inr buf \<Rightarrow> True | Inl e \<Rightarrow> False)"
    unfolding a b by (auto split: prod.splits sum.splits)
  let ?snap = "snd (exec_step eng w (page ent) i snapshot_step (JStr ''snapshot''))"
  have "?snap\<lparr>action := action ?snap\<rparr> = ?snap" by simp
  then have keep: "?snap\<lparr>action := JStr ''snapshot''\<rparr> = ?snap"
    using exec_step_action[of eng w "page ent" i snapshot_step "JStr ''snapshot''"] by simp
  have c1: "i < length (reply_steps ?r)" using there rs by simp
  have c2: "reply_steps ?r ! i = ?snap\<lparr>action := js_or (js_prop ?step ''action'') (JStr ''snapshot'')\<rparr>"
    using nth same rs by (simp add: action_of_def)
  have c3: "js_prop ?step ''action'' = JUndefined \<longrightarrow> reply_steps ?r ! i = ?snap"
    using c2 keep by (simp add: js_or_def)
  have c4: "success (reply_steps ?r ! i) =
              (case snd (take_screenshot eng w (page ent)) of Inr buf \<Rightarrow> True | Inl e \<Rightarrow> False)"
    using nth succ rs by simp
  have c5: "st_srv (state_before eng ?stream (page ent) ss ?start (Suc i)) =
              fst (exec_step eng w (page ent) i snapshot_step (JStr ''snapshot''))"
    using after state by simp
  from c1 c2 c3 c4 c5 show ?thesis by (intro conjI)
qed

theorem unlisted_action_runs_as_snapshot_witness:
  "reply_steps (fst (run demo_engine None demo_env empty_server (plain_run lenient_steps))) ! 0 =
     \<lparr>stepIndex = 0, action = JStr ''bogus'', screenshotBase64 = Some ''iVBORw0KGgo='',
      success = True, error = None\<rparr> \<and>
   reply_steps (fst (run demo_engine None demo_env empty_server (plain_run lenient_steps))) ! 1 =
     \<lparr>stepIndex = 1, action = JStr ''snapshot'', screenshotBase64 = Some ''iVBORw0KGgo='',
      success = True, error = None\<rparr> \<and>
   1 < length (reply_steps (fst (run demo_engine None demo_env empty_server (plain_run lenient_steps))))"
proof -
  let ?req = "plain_run lenient_steps"
  let ?srv1 = "\<lparr>sessions = [(JStr ''sess_x_1'', \<lparr>browser = 0, bcontext = 0, page = 0, lastUsedAt = 1000\<rparr>)],
                world = 3, calls = [ELaunch, ENewContext 0, ENewPage 0]\<rparr> :: (nat, nat) server"
  let ?ent = "\<lparr>browser = 0, bcontext = 0, page = 0, lastUsedAt = 1000\<rparr> :: nat entry"
  let ?w = "\<lambda>i. st_srv (state_before demo_engine (is_stream ?req) (page ?ent) lenient_steps
                         (loop_start (is_stream ?req) ?srv1) i)"
  have auth: "fst (checkAuth None (authorization ?req) new_response)"
    by (simp add: checkAuth_def)
  have steps: "body_steps ?req = JArr lenient_steps" "0 < length lenient_steps" "length lenient_steps \<le> 15"
    by (simp_all add: plain_run_def lenient_steps_def)
  have sess: "getOrCreateSession demo_engine demo_env empty_server (js_or (body_sessionId ?req) JNull)
                = (?srv1, Inr (JStr ''sess_x_1'', ?ent))"
    by (simp add: engine_eval handler_eval)
  have i0: "0 < length lenient_steps" and i1: "1 < length lenient_steps"
    by (simp_all add: lenient_steps_def)
  have reached0: "\<forall>j\<le>0. lenient_steps ! j \<noteq> JNull \<and> lenient_steps ! j \<noteq> JUndefined"
    by (simp add: lenient_steps_def)
  have reached1: "\<forall>j\<le>1. lenient_steps ! j \<noteq> JNull \<and> lenient_steps ! j \<noteq> JUndefined"
    by (simp add: lenient_steps_def le_Suc_eq)
  have u0: "js_prop (lenient_steps ! 0) ''action'' \<notin> set [JStr ''navigate'', JStr ''wait'', JStr ''click'', JStr ''fill'']"
    and u1: "js_prop (lenient_steps ! 1) ''action'' \<notin> set [JStr ''navigate'', JStr ''wait'', JStr ''click'', JStr ''fill'']"
    by (simp_all add: lenient_steps_def js_prop_def)
  have a0: "js_or (js_prop (lenient_steps ! 0) ''action'') (JStr ''snapshot'') = JStr ''bogus''"
    and a1: "js_or (js_prop (lenient_steps ! 1) ''action'') (JStr ''snapshot'') = JStr ''snapshot''"
    by (simp_all add: lenient_steps_def js_prop_def js_or_def)
  have s0: "snd (exec_step demo_engine (?w 0) (page ?ent) 0 snapshot_step (JStr ''snapshot'')) =
      \<lparr>stepIndex = 0, action = JStr ''snapshot'', screenshotBase64 = Some ''iVBORw0KGgo='',
        success = True, error = None\<rparr>"
    by (simp add: engine_eval handler_eval lenient_steps_def snapshot_step_def)
  have s1: "snd (exec_step demo_engine (?w 1) (page ?ent) 1 snapshot_step (JStr ''snapshot'')) =
      \<lparr>stepIndex = 1, action = JStr ''snapshot'', screenshotBase64 = Some ''iVBORw0KGgo='',
        success = True, error = None\<rparr>"
    by (simp add: engine_eval handler_eval lenient_steps_def snapshot_step_def)
  note m0 = unlisted_action_runs_as_snapshot[OF auth steps sess i0 reached0 u0 refl]
  note m1 = unlisted_action_runs_as_snapshot[OF auth steps sess i1 reached1 u1 refl]
  have r0: "reply_steps (fst (run demo_engine None demo_env empty_server ?req)) ! 0 =
      \<lparr>stepIndex = 0, action = JStr ''bogus'', screenshotBase64 = Some ''iVBORw0KGgo='',
        success = True, error = None\<rparr>"
    using m0[THEN conjunct2, THEN conjunct1] unfolding s0 a0 by simp
  have r1: "reply_steps (fst (run demo_engine None demo_env empty_server ?req)) ! 1 =
      \<lparr>stepIndex = 1, action = JStr ''snapshot'', screenshotBase64 = Some ''iVBORw0KGgo='',
        success = True, error = None\<rparr>"
    using m1[THEN conjunct2, THEN conjunct1] unfolding s1 a1 by simp
  have l: "1 < length (reply_steps (fst (run demo_engine None demo_env empty_server ?req)))"
    using m1 by (rule conjunct1)
  from r0 r1 l show ?thesis by (intro conjI)
qed

text \<open>
  C10 as stated promises \<open>success = True\<close>. On an engine whose page has crashed the
  screenshot of the unlisted action \<open>bogus\<close> throws, and the step is reported failed.
  And a \<open>null\<close> step, which has no action field either, is not executed as a
  snapshot: it ends the run with no result.
\<close>

theorem unlisted_action_counterexample:
  "reply_steps (fst (run crashed_engine None demo_env empty_server (plain_run [JObj [(''action'', JStr ''bogus'')]])))
     = [\<lparr>stepIndex = 0, action = JStr ''bogus'', screenshotBase64 = None, success = False,
          error = Some ''Target crashed''\<rparr>] \<and>
   js_prop JNull ''action'' = JUndefined \<and>
   reply_success (fst (run demo_engine None demo_env empty_server (plain_run [JNull]))) = Some False \<and>
   reply_steps (fst (run demo_engine None demo_env empty_server (plain_run [JNull]))) = []"
  by (simp add: engine_eval handler_eval)

text \<open>
  C3. The code at the input \<open>{"steps":[{"action":"navigate"}]}\<close>: the missing url is
  not a validation failure. The handler substitutes \<open>about:blank\<close>, calls the engine
  with it, and reports the step with \<open>success = True\<close> and no error.
  (\<open>navigate_defaults_url\<close> shows the substitution for every engine and state.)
\<close>

theorem navigate_without_url_succeeds:
  "reply_steps (fst (run demo_engine None demo_env empty_server (plain_run [JObj [(''action'', JStr ''navigate'')]])))
     = [\<lparr>stepIndex = 0, action = JStr ''navigate'', screenshotBase64 = Some ''iVBORw0KGgo='',
          success = True, error = None\<rparr>] \<and>
   calls (snd (run demo_engine None demo_env empty_server (plain_run [JObj [(''action'', JStr ''navigate'')]])))
     = [ELaunch, ENewContext 0, ENewPage 0,
        EDo 0 (Goto (JStr ''about:blank'') (JStr ''load'') (JNum 60000)), EScreenshot 0]"
  by (simp add: engine_eval handler_eval)

text \<open>
  C4. The code at a registry holding session \<open>s1\<close> last used at time 0, clock at 1000:
  \<open>GET /session/s1/screenshot\<close> and \<open>GET /session/s1/info\<close> answer 200 and leave
  \<open>lastUsedAt\<close> at 0, whereas \<open>POST /session/s1/interact\<close> sets it to 1000.
  (\<open>get_screenshot_keeps_sessions\<close> and \<open>get_info_keeps_sessions\<close> show the same for
  every input; \<open>interact_refreshes\<close> and \<open>run_reuse_refreshes\<close> show that the other
  two paths do refresh.)
\<close>

theorem read_only_queries_keep_lastUsedAt:
  "now demo_env = 1000 \<and>
   statusCode (fst (handle demo_engine None demo_env one_session_server (GetScreenshot None ''s1''))) = 200 \<and>
   sessions (snd (handle demo_engine None demo_env one_session_server (GetScreenshot None ''s1'')))
     = [(JStr ''s1'', \<lparr>browser = 0, bcontext = 0, page = 0, lastUsedAt = 0\<rparr>)] \<and>
   statusCode (fst (handle demo_engine None demo_env one_session_server (GetInfo None ''s1''))) = 200 \<and>
   sessions (snd (handle demo_engine None demo_env one_session_server (GetInfo None ''s1'')))
     = [(JStr ''s1'', \<lparr>browser = 0, bcontext = 0, page = 0, lastUsedAt = 0\<rparr>)] \<and>
   sessions (snd (handle demo_engine None demo_env one_session_server (PostInteract None ''s1'' click_body)))
     = [(JStr ''s1'', \<lparr>browser = 0, bcontext = 0, page = 0, lastUsedAt = 1000\<rparr>)]"
  by (simp add: engine_eval handler_eval endpoint_eval click_body_def)

end
